theory Spec2Isabelle
  imports Complex_Main "HOL-Library.Sublist" "HOL-Library.Multiset" "HOL-Library.Log_Nat"
begin

section \<open>casim: a cellular-automaton tumour simulation\<close>

text \<open>
  A shallow embedding of \<^verbatim>\<open>casim/casim.py\<close>. Python integers are \<open>int\<close>, Python
  floats (the probabilities) are the rationals they stand for, lists
  are lists, the dictionary built by \<^verbatim>\<open>mutation_reconstruction\<close> is an association
  list read with \<open>map_of\<close>. Every exception the code can raise is a value of \<open>error\<close>.
\<close>

datatype error = TypeError | ValueError | IndexError | KeyError

subsection \<open>The histogram of mutations (\<^verbatim>\<open>bulk_seq\<close>)\<close>

text \<open>
  \<^verbatim>\<open>np.min\<close> and \<^verbatim>\<open>np.max\<close> raise ValueError on a sequence without elements.
\<close>

definition np_min :: "int list \<Rightarrow> error + int" where
  "np_min xs = (case xs of [] \<Rightarrow> Inl ValueError | x # r \<Rightarrow> Inr (fold min r x))"

definition np_max :: "int list \<Rightarrow> error + int" where
  "np_max xs = (case xs of [] \<Rightarrow> Inl ValueError | x # r \<Rightarrow> Inr (fold max r x))"

text \<open>
  \<^verbatim>\<open>np.histogram(a, bins, range=(mn, mx))\<close> with an integer \<^verbatim>\<open>bins\<close>: fewer than one
  bin is a ValueError; otherwise the \<open>bins + 1\<close> edges are \<open>mn + k * ((mx - mn) / bins)\<close>,
  every bin is half-open \<open>[edge k, edge (k + 1))\<close> except the last, which also holds its
  right edge \<open>mx\<close>. The edges are rationals here (numpy computes them as floats, which
  are exact for the integer edges that \<^verbatim>\<open>bulk_seq\<close> asks for).
\<close>

definition edge :: "int \<Rightarrow> int \<Rightarrow> int \<Rightarrow> nat \<Rightarrow> rat" where
  "edge mn mx bins k = of_int mn + of_nat k * (of_int (mx - mn) / of_int bins)"

definition in_bin :: "int \<Rightarrow> int \<Rightarrow> int \<Rightarrow> nat \<Rightarrow> int \<Rightarrow> bool" where
  "in_bin mn mx bins k x =
     (edge mn mx bins k \<le> of_int x \<and>
      (if int (Suc k) = bins then x \<le> mx else of_int x < edge mn mx bins (Suc k)))"

definition histogram :: "int list \<Rightarrow> int \<Rightarrow> int \<times> int \<Rightarrow> error + (nat list \<times> rat list)" where
  "histogram a bins rge =
     (case rge of (mn, mx) \<Rightarrow>
        if bins < 1 then Inl ValueError
        else Inr (map (\<lambda>k. length (filter (in_bin mn mx bins k) a)) [0..<nat bins],
                  map (edge mn mx bins) [0..<Suc (nat bins)]))"

text \<open>Python's \<^verbatim>\<open>int(e)\<close> on a float truncates towards zero.\<close>

definition py_int :: "rat \<Rightarrow> int" where
  "py_int r = (if 0 \<le> r then \<lfloor>r\<rfloor> else \<lceil>r\<rceil>)"

text \<open>
  \<^verbatim>\<open>bulk_seq(DNA, step, benefitial, sampling_or_fullTumour)\<close>: only \<^verbatim>\<open>DNA\<close> is read
  before the first \<^verbatim>\<open>return\<close>. The flattened list goes to \<^verbatim>\<open>np.min\<close> and
  \<^verbatim>\<open>np.max\<close>, the number of bins is \<^verbatim>\<open>mx - mn\<close>, and the result pairs each edge but
  the last with the count of its bin.
\<close>

definition bulk_seq :: "int list list \<Rightarrow> error + (int \<times> nat) list" where
  "bulk_seq DNA =
     (let reduced = concat DNA in
      case np_min reduced of Inl e \<Rightarrow> Inl e | Inr mn \<Rightarrow>
     (case np_max reduced of Inl e \<Rightarrow> Inl e | Inr mx \<Rightarrow>
     (let bins = mx - mn in
      case histogram reduced bins (mn, mx) of Inl e \<Rightarrow> Inl e
      | Inr (hist, edges) \<Rightarrow>
          Inr (map (\<lambda>(e, h). (py_int e, h)) (zip (butlast edges) hist)))))"

subsection \<open>Parameters and the state of a simulation\<close>

type_synonym coord = "int \<times> int"

datatype multiplicity = Single | Double

text \<open>
  \<^verbatim>\<open>CancerSimulatorParameters\<close>, after its setters have validated every field. The
  probabilities are floats in the code; a float is written as the rational it stands for.
  They are compared with a draw and, for \<^verbatim>\<open>death_probability\<close>, multiplied with a
  length (see \<open>to_float\<close> below for the rounding of that product).
\<close>

record parameters =
  matrix_size :: int
  number_of_generations :: int
  division_probability :: rat
  advantageous_division_probability :: rat
  death_probability :: rat
  fitness_advantage_death_probability :: rat
  mutation_rate :: rat
  advantageous_mutation_probability :: rat
  mutations_per_division :: int
  time_of_advantageous_mutation :: int
  number_of_clonal :: int
  tumour_multiplicity :: multiplicity

text \<open>
  The fields of \<^verbatim>\<open>CancerSimulator\<close> that the growth reads and writes, together with
  the two process-wide generators the code draws from: \<open>prng\<close> is the state of Python's
  module \<^verbatim>\<open>random\<close> (\<^verbatim>\<open>prng.random\<close>, \<^verbatim>\<open>prng.choice\<close>, \<^verbatim>\<open>prng.sample\<close>,
  \<^verbatim>\<open>shuffle\<close>), \<open>np_random\<close> the state of \<^verbatim>\<open>numpy.random\<close>
  (\<^verbatim>\<open>np.random.poisson\<close>). A generator's state is the sequence of raw outcomes it will
  deliver, followed by zeros. \<open>mtx\<close> is the \<^verbatim>\<open>lil_matrix\<close>, a value for every
  in-range index pair.
\<close>

record simulator =
  mtx :: "coord \<Rightarrow> int"
  mut_container :: "(int \<times> int) list"
  pool :: "coord list"
  benefitial_mutation :: "int list"
  growth_plot_data :: "nat list"
  prng :: "nat list"
  np_random :: "nat list"

text \<open>
  A call either raises, leaving the object as it was at that moment, or returns a value, or
  never returns (\<open>Hang\<close>, with the object as it was when the call got stuck). Nothing in
  the simulator catches an exception, so a raise and a hang both end the run.
\<close>

datatype 'a outcome = Raise error simulator | Return 'a simulator | Hang simulator

fun state_of :: "'a outcome \<Rightarrow> simulator" where
  "state_of (Raise e s) = s"
| "state_of (Return x s) = s"
| "state_of (Hang s) = s"

definition andthen ::
  "(simulator \<Rightarrow> 'a outcome) \<Rightarrow> ('a \<Rightarrow> simulator \<Rightarrow> 'b outcome) \<Rightarrow> simulator \<Rightarrow> 'b outcome" where
  "andthen m f s =
     (case m s of Raise e s' \<Rightarrow> Raise e s' | Return x s' \<Rightarrow> f x s' | Hang s' \<Rightarrow> Hang s')"

definition lift :: "error + 'a \<Rightarrow> simulator \<Rightarrow> 'a outcome" where
  "lift r s = (case r of Inl e \<Rightarrow> Raise e s | Inr x \<Rightarrow> Return x s)"

subsection \<open>Indexing\<close>

text \<open>
  An index into a list or into one axis of the matrix: \<open>-n \<le> i < n\<close> or IndexError, a
  negative index counting from the end.
\<close>

definition index_in :: "int \<Rightarrow> int \<Rightarrow> error + int" where
  "index_in n i = (if i < - n \<or> n \<le> i then Inl IndexError else Inr (if i < 0 then i + n else i))"

definition py_index :: "'a list \<Rightarrow> int \<Rightarrow> error + 'a" where
  "py_index xs i =
     (case index_in (int (length xs)) i of Inl e \<Rightarrow> Inl e | Inr j \<Rightarrow> Inr (xs ! nat j))"

definition locate :: "parameters \<Rightarrow> coord \<Rightarrow> error + coord" where
  "locate p c =
     (case index_in (matrix_size p) (fst c) of Inl e \<Rightarrow> Inl e
      | Inr i \<Rightarrow> (case index_in (matrix_size p) (snd c) of Inl e \<Rightarrow> Inl e
                 | Inr j \<Rightarrow> Inr (i, j)))"

text \<open>\<^verbatim>\<open>self.__mtx[c]\<close> and \<^verbatim>\<open>self.__mtx[c] = v\<close>.\<close>

definition getitem :: "parameters \<Rightarrow> coord \<Rightarrow> simulator \<Rightarrow> int outcome" where
  "getitem p c s = (case locate p c of Inl e \<Rightarrow> Raise e s | Inr k \<Rightarrow> Return (mtx s k) s)"

definition setitem :: "parameters \<Rightarrow> coord \<Rightarrow> int \<Rightarrow> simulator \<Rightarrow> unit outcome" where
  "setitem p c v s =
     (case locate p c of Inl e \<Rightarrow> Raise e s
      | Inr k \<Rightarrow> Return () (s\<lparr>mtx := (mtx s)(k := v)\<rparr>))"

subsection \<open>The generators\<close>

definition draw :: "simulator \<Rightarrow> nat \<times> simulator" where
  "draw s = (case prng s of [] \<Rightarrow> (0, s) | x # g \<Rightarrow> (x, s\<lparr>prng := g\<rparr>))"

text \<open>\<^verbatim>\<open>prng.random()\<close>: a multiple of \<open>2 ^ -53\<close> in \<open>[0, 1)\<close>.\<close>

definition prng_random :: "simulator \<Rightarrow> rat outcome" where
  "prng_random s =
     (case draw s of (x, s') \<Rightarrow> Return (of_int (int x mod 2 ^ 53) / 2 ^ 53) s')"

text \<open>\<^verbatim>\<open>prng.choice(seq)\<close>: IndexError on an empty sequence, else the element at a drawn index.\<close>

definition prng_choice :: "'a list \<Rightarrow> simulator \<Rightarrow> 'a outcome" where
  "prng_choice xs s =
     (if xs = [] then Raise IndexError s
      else (case draw s of (x, s') \<Rightarrow> Return (xs ! (x mod length xs)) s'))"

text \<open>
  \<^verbatim>\<open>shuffle(self.__pool)\<close>: for \<open>i\<close> from the last index down to 1, swap the element
  at \<open>i\<close> with the one at a drawn index \<open>j \<le> i\<close>.
\<close>

fun shuffle_loop :: "nat \<Rightarrow> simulator \<Rightarrow> simulator" where
  "shuffle_loop 0 s = s"
| "shuffle_loop (Suc i) s =
     (case draw s of (x, s') \<Rightarrow>
        (let j = x mod Suc (Suc i); xs = pool s'
         in shuffle_loop i (s'\<lparr>pool := xs[Suc i := xs ! j, j := xs ! Suc i]\<rparr>)))"

definition shuffle :: "simulator \<Rightarrow> unit outcome" where
  "shuffle s = Return () (shuffle_loop (length (pool s) - 1) s)"

text \<open>
  \<^verbatim>\<open>prng.sample(population, k)\<close>, as CPython's \<^verbatim>\<open>random.py\<close> has it. The two loops
  of the function work on the generator alone; \<open>raw\<close> is \<open>draw\<close> on the state of the
  generator.
\<close>

definition raw :: "nat list \<Rightarrow> nat \<times> nat list" where
  "raw g = (case g of [] \<Rightarrow> (0, []) | x # g' \<Rightarrow> (x, g'))"

text \<open>
  The first loop, for a population that is small against the sample:
  \<^verbatim>\<open>j = randbelow(n-i); result[i] = pool[j]; pool[j] = pool[n-i-1]\<close>. The list \<open>rest\<close>
  is the part of the copy \<^verbatim>\<open>pool\<close> that is still unselected.
\<close>

fun sample_swap :: "nat \<Rightarrow> 'a list \<Rightarrow> nat list \<Rightarrow> 'a list \<times> nat list" where
  "sample_swap 0 rest g = ([], g)"
| "sample_swap (Suc i) rest g =
     (case raw g of (x, g') \<Rightarrow>
        (let j = x mod length rest
         in (case sample_swap i (butlast (rest[j := last rest])) g' of
               (r, g'') \<Rightarrow> (rest ! j # r, g''))))"

text \<open>
  The second loop keeps the set of the positions selected so far and draws again while
  the position drawn is in it: \<^verbatim>\<open>while j in selected: j = randbelow(n)\<close>. This loop need
  not end; \<open>None\<close> is the loop that runs for ever.
\<close>

partial_function (option) redraw ::
  "nat list \<Rightarrow> nat \<Rightarrow> nat \<Rightarrow> nat list \<Rightarrow> (nat \<times> nat list) option" where
  "redraw selected n j g =
     (if j \<in> set selected
      then (case raw g of (x, g') \<Rightarrow> redraw selected n (x mod n) g')
      else Some (j, g))"

declare redraw.simps [code]

fun sample_reject ::
  "nat \<Rightarrow> 'a list \<Rightarrow> nat list \<Rightarrow> nat list \<Rightarrow> ('a list \<times> nat list) option" where
  "sample_reject 0 population selected g = Some ([], g)"
| "sample_reject (Suc i) population selected g =
     (case raw g of (x, g1) \<Rightarrow>
     (case redraw selected (length population) (x mod length population) g1 of
        None \<Rightarrow> None
      | Some (j, g2) \<Rightarrow>
     (case sample_reject i population (j # selected) g2 of
        None \<Rightarrow> None
      | Some (r, g3) \<Rightarrow> Some (population ! j # r, g3))))"

text \<open>
  \<^verbatim>\<open>setsize = 21\<close>, and \<^verbatim>\<open>setsize += 4 ** _ceil(_log(k * 3, 4))\<close> if \<open>k > 5\<close>: the
  least power of 4 that is not below \<open>3 * k\<close>, which the float logarithm delivers for
  every \<open>k\<close> below \<open>2 ^ 48\<close>.
\<close>

definition setsize :: "nat \<Rightarrow> nat" where
  "setsize k = 21 + (if 5 < k then 4 ^ floorlog 4 (3 * k - 1) else 0)"

text \<open>
  ValueError unless \<open>0 \<le> k \<le> len(population)\<close>; then the first loop if the population
  is not larger than \<open>setsize\<close>, the second loop otherwise.
\<close>

definition prng_sample :: "'a list \<Rightarrow> int \<Rightarrow> simulator \<Rightarrow> 'a list outcome" where
  "prng_sample population k s =
     (if k < 0 \<or> int (length population) < k then Raise ValueError s
      else if length population \<le> setsize (nat k) then
        (case sample_swap (nat k) population (prng s) of
           (r, g) \<Rightarrow> Return r (s\<lparr>prng := g\<rparr>))
      else
        (case sample_reject (nat k) population [] (prng s) of
           None \<Rightarrow> Hang s
         | Some (r, g) \<Rightarrow> Return r (s\<lparr>prng := g\<rparr>)))"

text \<open>
  The positions below \<open>n\<close> that the generator in the state \<open>g\<close> will still deliver:
  those of its raw outcomes, and that of the zeros that follow them. The second loop of
  \<^verbatim>\<open>prng.sample\<close> ends when there are at least as many of them as the sample is large.
\<close>

definition positions :: "nat \<Rightarrow> nat list \<Rightarrow> nat set" where
  "positions n g = insert 0 ((\<lambda>x. x mod n) ` set g)"

text \<open>
  \<^verbatim>\<open>np.random.poisson(lam)\<close>: ValueError for a negative mean, else the next count of
  numpy's own generator. Nothing in the code seeds that generator.
\<close>

definition np_random_poisson :: "int \<Rightarrow> simulator \<Rightarrow> nat outcome" where
  "np_random_poisson lam s =
     (if lam < 0 then Raise ValueError s
      else (case np_random s of [] \<Rightarrow> Return 0 s | x # g \<Rightarrow> Return x (s\<lparr>np_random := g\<rparr>)))"

subsection \<open>Neighbours, division and mutation\<close>

definition neighboursList :: "coord \<Rightarrow> coord list" where
  "neighboursList cell =
     [(fst cell - 1, snd cell + 1),
      (fst cell, snd cell + 1),
      (fst cell + 1, snd cell + 1),
      (fst cell - 1, snd cell),
      (fst cell + 1, snd cell),
      (fst cell - 1, snd cell - 1),
      (fst cell, snd cell - 1),
      (fst cell + 1, snd cell - 1)]"

text \<open>The comprehension \<^verbatim>\<open>[y for y in neighboursList if self.__mtx[y]==0]\<close>.\<close>

fun unoccupied :: "parameters \<Rightarrow> simulator \<Rightarrow> coord list \<Rightarrow> error + coord list" where
  "unoccupied p s [] = Inr []"
| "unoccupied p s (y # ys) =
     (case locate p y of Inl e \<Rightarrow> Inl e
      | Inr k \<Rightarrow> (case unoccupied p s ys of Inl e \<Rightarrow> Inl e
                 | Inr r \<Rightarrow> Inr (if mtx s k = 0 then y # r else r)))"

definition neighbours :: "parameters \<Rightarrow> simulator \<Rightarrow> coord \<Rightarrow> error + coord list" where
  "neighbours p s cell = unoccupied p s (neighboursList cell)"

text \<open>
  \<^verbatim>\<open>mutation(cell, neighbors, step, mutation_counter, pool, place_to_divide, benefitial)\<close>.
  The arguments \<^verbatim>\<open>neighbors\<close> and \<^verbatim>\<open>pool\<close> are not read. The logging calls read
  only entries that the statement before them has read already.
\<close>

definition append_ledger :: "int \<times> int \<Rightarrow> simulator \<Rightarrow> unit outcome" where
  "append_ledger e s = Return () (s\<lparr>mut_container := mut_container s @ [e]\<rparr>)"

definition append_benefitial :: "int \<Rightarrow> simulator \<Rightarrow> unit outcome" where
  "append_benefitial d s = Return () (s\<lparr>benefitial_mutation := benefitial_mutation s @ [d]\<rparr>)"

definition ledger_entry :: "int \<Rightarrow> simulator \<Rightarrow> (int \<times> int) outcome" where
  "ledger_entry c s = lift (py_index (mut_container s) c) s"

text \<open>
  The statement
  \<^verbatim>\<open>self.__mut_container.append((self.__mut_container[self.__mtx[cell]][1], mutation_counter))\<close>
  and the statement
  \<^verbatim>\<open>self.__benefitial_mutation.append(int(self.__mtx[place_to_divide]))\<close>.
\<close>

definition append_lineage :: "parameters \<Rightarrow> coord \<Rightarrow> int \<Rightarrow> simulator \<Rightarrow> unit outcome" where
  "append_lineage p cell mutation_counter =
     andthen (getitem p cell) (\<lambda>c.
     andthen (ledger_entry c) (\<lambda>mc.
     append_ledger (snd mc, mutation_counter)))"

definition mark_benefitial :: "parameters \<Rightarrow> coord \<Rightarrow> simulator \<Rightarrow> unit outcome" where
  "mark_benefitial p place_to_divide = andthen (getitem p place_to_divide) append_benefitial"

definition mutation ::
  "parameters \<Rightarrow> coord \<Rightarrow> int \<Rightarrow> int \<Rightarrow> coord \<Rightarrow> bool \<Rightarrow> simulator \<Rightarrow> int outcome" where
  "mutation p cell step mutation_counter place_to_divide benefitial =
     andthen prng_random (\<lambda>u.
       if u < mutation_rate p then
         andthen (\<lambda>s. setitem p place_to_divide (int (length (mut_container s))) s) (\<lambda>_.
         andthen (append_lineage p cell (mutation_counter + 1)) (\<lambda>_.
         andthen
           (if benefitial then mark_benefitial p place_to_divide
            else andthen prng_random (\<lambda>u2 s.
                   if u2 < advantageous_mutation_probability p
                      \<and> length (benefitial_mutation s) = 0
                      \<and> step = time_of_advantageous_mutation p
                   then mark_benefitial p place_to_divide s
                   else Return () s)) (\<lambda>_.
         andthen (append_lineage p cell (mutation_counter + 1 + 1)) (\<lambda>_.
         andthen (\<lambda>s. setitem p cell (int (length (mut_container s)) - 1) s) (\<lambda>_.
         Return (mutation_counter + 1 + 1))))))
       else
         andthen (getitem p cell) (\<lambda>c.
         andthen (setitem p place_to_divide c) (\<lambda>_.
         Return mutation_counter)))"

text \<open>
  \<^verbatim>\<open>division(cell, benefitial, neighbors, step, mutation_counter, pool)\<close>: both
  branches draw a free neighbour, append it to the temporary pool and call
  \<^verbatim>\<open>mutation\<close>. The temporary pool is a local list of the growth loop; it is passed
  and returned here.
\<close>

definition division ::
  "parameters \<Rightarrow> coord \<Rightarrow> bool \<Rightarrow> coord list \<Rightarrow> int \<Rightarrow> int \<Rightarrow> coord list \<Rightarrow> simulator
     \<Rightarrow> (int \<times> coord list) outcome" where
  "division p cell benefitial neighbors step mutation_counter temp_pool =
     (if benefitial then
        andthen (prng_choice neighbors) (\<lambda>place_to_divide.
        andthen (mutation p cell step mutation_counter place_to_divide True) (\<lambda>c.
        Return (c, temp_pool @ [place_to_divide])))
      else
        andthen (prng_choice neighbors) (\<lambda>place_to_divide.
        andthen (mutation p cell step mutation_counter place_to_divide False) (\<lambda>c.
        Return (c, temp_pool @ [place_to_divide]))))"

subsection \<open>Death\<close>

text \<open>\<^verbatim>\<open>list.remove\<close> raises ValueError when the element is not in the list.\<close>

definition terminate_cell :: "parameters \<Rightarrow> coord \<Rightarrow> simulator \<Rightarrow> unit outcome" where
  "terminate_cell p cell s =
     (if cell \<in> set (pool s)
      then setitem p cell 0 (s\<lparr>pool := remove1 cell (pool s)\<rparr>)
      else Raise ValueError s)"

fun terminate_cells :: "parameters \<Rightarrow> coord list \<Rightarrow> simulator \<Rightarrow> unit outcome" where
  "terminate_cells p [] s = Return () s"
| "terminate_cells p (i # rest) s =
     (case terminate_cell p i s of Raise e s' \<Rightarrow> Raise e s'
      | Return _ s' \<Rightarrow> terminate_cells p rest s'
      | Hang s' \<Rightarrow> Hang s')"

text \<open>
  The number of cells to kill is \<^verbatim>\<open>math.floor(self.parameters.death_probability*len(self.__pool))\<close>,
  the floor of a product of two doubles. A double is written as the rational it stands
  for. \<open>to_float\<close> rounds a rational to the nearest double, ties to the even mantissa
  (53 bits in the binade of the number, steps of \<open>2 ^ -1074\<close> below the normal range;
  no number here is large enough to overflow): it is what \<^verbatim>\<open>float(val)\<close> in the
  setter of the parameter does to the number given, what the conversion of the length
  does, and what the multiplication does to the exact product.
\<close>

definition binade :: "rat \<Rightarrow> int" where
  "binade x = (if 1 \<le> x then bitlen \<lfloor>x\<rfloor> - 1 else - bitlen (\<lceil>1 / x\<rceil> - 1))"

definition ulp :: "rat \<Rightarrow> rat" where
  "ulp x = power_int 2 (max (binade x - 52) (- 1074))"

definition round_half_even :: "rat \<Rightarrow> int" where
  "round_half_even q =
     (if q - of_int \<lfloor>q\<rfloor> < 1 / 2 then \<lfloor>q\<rfloor>
      else if 1 / 2 < q - of_int \<lfloor>q\<rfloor> then \<lfloor>q\<rfloor> + 1
      else if even \<lfloor>q\<rfloor> then \<lfloor>q\<rfloor> else \<lfloor>q\<rfloor> + 1)"

definition to_float :: "rat \<Rightarrow> rat" where
  "to_float x =
     (if x = 0 then 0
      else if 0 < x then of_int (round_half_even (x / ulp x)) * ulp x
      else - (of_int (round_half_even (- x / ulp (- x))) * ulp (- x)))"

definition death_count :: "parameters \<Rightarrow> nat \<Rightarrow> int" where
  "death_count p n = \<lfloor>to_float (to_float (death_probability p) * to_float (of_nat n))\<rfloor>"

definition deathStep :: "parameters \<Rightarrow> int \<Rightarrow> simulator \<Rightarrow> unit outcome" where
  "deathStep p step =
     andthen (\<lambda>s. prng_sample (pool s) (death_count p (length (pool s))) s)
       (terminate_cells p)"

subsection \<open>Reconstruction and scaling\<close>

text \<open>
  The loop \<^verbatim>\<open>while m>0: mut_prof.append(m); m = lookup_map[m]\<close> of
  \<^verbatim>\<open>mutation_reconstruction\<close>. It need not end: \<open>None\<close> is the loop that runs for ever.
\<close>

partial_function (option) trace_back ::
  "(int \<rightharpoonup> int) \<Rightarrow> int \<Rightarrow> int list \<Rightarrow> (error + int list) option" where
  "trace_back lookup_map m mut_prof =
     (if m > 0 then
        (case lookup_map m of None \<Rightarrow> Some (Inl KeyError)
         | Some m' \<Rightarrow> trace_back lookup_map m' (mut_prof @ [m]))
      else Some (Inr mut_prof))"

text \<open>
  \<^verbatim>\<open>dict([(k,v) for v,k in self.__mut_container])\<close>: a later pair replaces an earlier
  one with the same key.
\<close>

definition lookup_map :: "simulator \<Rightarrow> (int \<rightharpoonup> int)" where
  "lookup_map s = map_of (rev (map (\<lambda>(v, k). (k, v)) (mut_container s)))"

fun reconstruct ::
  "parameters \<Rightarrow> simulator \<Rightarrow> coord list \<Rightarrow> (error + int list list) option" where
  "reconstruct p s [] = Some (Inr [])"
| "reconstruct p s (i # rest) =
     (case locate p i of Inl e \<Rightarrow> Some (Inl e)
      | Inr k \<Rightarrow>
     (case py_index (mut_container s) (mtx s k) of Inl e \<Rightarrow> Some (Inl e)
      | Inr mc \<Rightarrow>
     (case trace_back (lookup_map s) (snd mc) [] of None \<Rightarrow> None
      | Some (Inl e) \<Rightarrow> Some (Inl e)
      | Some (Inr mut_prof) \<Rightarrow>
     (case reconstruct p s rest of None \<Rightarrow> None
      | Some (Inl e) \<Rightarrow> Some (Inl e)
      | Some (Inr reconstructed) \<Rightarrow> Some (Inr (rev mut_prof # reconstructed))))))"

text \<open>\<^verbatim>\<open>mutation_reconstruction(self)\<close>: the mutation lists of all cells of the pool.\<close>

definition mutation_reconstruction ::
  "parameters \<Rightarrow> simulator \<Rightarrow> (error + int list list) option" where
  "mutation_reconstruction p s = reconstruct p s (pool s)"

text \<open>
  The growth loop calls \<^verbatim>\<open>self.mutation_reconstruction(self.__mtx[i])\<close>, with one
  positional argument. The class defines \<^verbatim>\<open>mutation_reconstruction(self)\<close> only, and
  Python checks the arguments of a call against the parameters before the body runs:
  the call raises TypeError.
\<close>

definition mutation_reconstruction_of :: "int \<Rightarrow> simulator \<Rightarrow> int list outcome" where
  "mutation_reconstruction_of cell s = Raise TypeError s"

text \<open>
  \<^verbatim>\<open>increase_mut_number(solid_pre_vaf)\<close>: the entry of id 1 is repeated
  \<^verbatim>\<open>number_of_clonal\<close> times, every other entry as often as a Poisson draw of numpy's
  generator says.
\<close>

fun increase_mut_number ::
  "parameters \<Rightarrow> (int \<times> nat) list \<Rightarrow> simulator \<Rightarrow> (int \<times> rat) list outcome" where
  "increase_mut_number p [] s = Return [] s"
| "increase_mut_number p (i # rest) s =
     (if fst i = 1 then
        (case increase_mut_number p rest s of Raise e s' \<Rightarrow> Raise e s'
         | Return t s' \<Rightarrow>
             Return (replicate (nat (number_of_clonal p)) (fst i, of_nat (snd i)) @ t) s'
         | Hang s' \<Rightarrow> Hang s')
      else
        (case np_random_poisson (mutations_per_division p) s of Raise e s' \<Rightarrow> Raise e s'
         | Hang s' \<Rightarrow> Hang s'
         | Return number_of_additional_mutations s' \<Rightarrow>
        (case increase_mut_number p rest s' of Raise e s'' \<Rightarrow> Raise e s''
         | Return t s'' \<Rightarrow>
             Return (replicate number_of_additional_mutations (fst i, of_nat (snd i)) @ t) s''
         | Hang s'' \<Rightarrow> Hang s'')))"

subsection \<open>The growth loop\<close>

text \<open>
  The class defines \<^verbatim>\<open>tumourGrowth\<close> twice; the second definition replaces the first
  and is the one modelled. One pass of its loop over the cells of the pool:
\<close>

definition cell_turn ::
  "parameters \<Rightarrow> int \<Rightarrow> coord \<Rightarrow> int \<Rightarrow> coord list \<Rightarrow> simulator \<Rightarrow> (int \<times> coord list) outcome" where
  "cell_turn p step cell mutation_counter temp_pool =
     andthen (\<lambda>s. lift (neighbours p s cell) s) (\<lambda>neigh.
       if neigh \<noteq> [] then
         andthen (getitem p cell) (\<lambda>c s.
           if c \<in> set (benefitial_mutation s) then
             andthen prng_random (\<lambda>u.
               if u < advantageous_division_probability p
               then division p cell True neigh step mutation_counter temp_pool
               else Return (mutation_counter, temp_pool)) s
           else
             andthen prng_random (\<lambda>u.
               if u < division_probability p
               then division p cell False neigh step mutation_counter temp_pool
               else Return (mutation_counter, temp_pool)) s)
       else Return (mutation_counter, temp_pool))"

fun divide_cells ::
  "parameters \<Rightarrow> int \<Rightarrow> coord list \<Rightarrow> int \<Rightarrow> coord list \<Rightarrow> simulator \<Rightarrow> (int \<times> coord list) outcome" where
  "divide_cells p step [] mutation_counter temp_pool s = Return (mutation_counter, temp_pool) s"
| "divide_cells p step (cell # cells) mutation_counter temp_pool s =
     (case cell_turn p step cell mutation_counter temp_pool s of Raise e s' \<Rightarrow> Raise e s'
      | Return (c, t) s' \<Rightarrow> divide_cells p step cells c t s'
      | Hang s' \<Rightarrow> Hang s')"

definition record_size :: "simulator \<Rightarrow> unit outcome" where
  "record_size s = Return () (s\<lparr>growth_plot_data := growth_plot_data s @ [length (pool s)]\<rparr>)"

definition extend_pool :: "coord list \<Rightarrow> simulator \<Rightarrow> unit outcome" where
  "extend_pool temp_pool s = Return () (s\<lparr>pool := pool s @ temp_pool\<rparr>)"

text \<open>The body of the loop over the generations, up to the second record of the size.\<close>

definition generation :: "parameters \<Rightarrow> int \<Rightarrow> int \<Rightarrow> simulator \<Rightarrow> int outcome" where
  "generation p step mutation_counter =
     andthen shuffle (\<lambda>_.
     andthen (\<lambda>s. divide_cells p step (pool s) mutation_counter [] s) (\<lambda>(c, temp_pool).
     andthen (extend_pool temp_pool) (\<lambda>_.
     andthen record_size (\<lambda>_.
     andthen (deathStep p step) (\<lambda>_.
     andthen record_size (\<lambda>_.
     Return c))))))"

text \<open>
  The comprehension \<^verbatim>\<open>[self.mutation_reconstruction(self.__mtx[i]) for i in self.__pool]\<close>
  and the rest of the last generation.
\<close>

fun reconstruct_pool :: "parameters \<Rightarrow> coord list \<Rightarrow> simulator \<Rightarrow> int list list outcome" where
  "reconstruct_pool p [] s = Return [] s"
| "reconstruct_pool p (i # rest) s =
     (case andthen (getitem p i) mutation_reconstruction_of s of Raise e s' \<Rightarrow> Raise e s'
      | Hang s' \<Rightarrow> Hang s'
      | Return r s' \<Rightarrow>
     (case reconstruct_pool p rest s' of Raise e s'' \<Rightarrow> Raise e s''
      | Return rs s'' \<Rightarrow> Return (r # rs) s''
      | Hang s'' \<Rightarrow> Hang s''))"

definition final_spectrum :: "parameters \<Rightarrow> simulator \<Rightarrow> (int \<times> rat) list outcome" where
  "final_spectrum p =
     andthen (\<lambda>s. reconstruct_pool p (pool s) s) (\<lambda>DNA.
     andthen (lift (bulk_seq DNA)) (\<lambda>bulk_vaf.
     increase_mut_number p bulk_vaf))"

text \<open>
  \<^verbatim>\<open>for step in range(number_of_generations)\<close>: the first argument counts the steps
  that are left. When the range is empty the function returns \<^verbatim>\<open>None\<close>.
\<close>

fun growth_loop ::
  "parameters \<Rightarrow> nat \<Rightarrow> int \<Rightarrow> int \<Rightarrow> simulator \<Rightarrow> (int \<times> rat) list option outcome" where
  "growth_loop p 0 step mutation_counter s = Return None s"
| "growth_loop p (Suc k) step mutation_counter s =
     (case generation p step mutation_counter s of Raise e s' \<Rightarrow> Raise e s'
      | Return c s' \<Rightarrow>
          if step = number_of_generations p - 1
          then andthen (final_spectrum p) (\<lambda>bulk_vaf. Return (Some bulk_vaf)) s'
          else growth_loop p k (step + 1) c s'
      | Hang s' \<Rightarrow> Hang s')"

definition tumourGrowth :: "parameters \<Rightarrow> simulator \<Rightarrow> (int \<times> rat) list option outcome" where
  "tumourGrowth p = growth_loop p (nat (number_of_generations p)) 0 1"

subsection \<open>A run\<close>

text \<open>
  The object as \<^verbatim>\<open>__init__\<close> leaves it: an empty matrix and no beneficial mutation. The
  state of numpy's generator is whatever the process has at that moment.
\<close>

definition init :: "nat list \<Rightarrow> simulator" where
  "init ambient =
     \<lparr>mtx = (\<lambda>_. 0), mut_container = [], pool = [], benefitial_mutation = [],
      growth_plot_data = [], prng = [], np_random = ambient\<rparr>"

text \<open>
  \<^verbatim>\<open>run()\<close>, up to the return of \<^verbatim>\<open>tumourGrowth\<close>. \<^verbatim>\<open>int(matrix_size*0.45)\<close> and
  its like truncate a float product; for a positive size this is the floor of the exact
  product. \<^verbatim>\<open>prng.seed(seed)\<close> sets the state of Python's generator to the sequence
  \<open>twister seed\<close>, where \<open>twister\<close> stands for the generator's algorithm.
\<close>

definition place_seeds :: "parameters \<Rightarrow> simulator \<Rightarrow> unit outcome" where
  "place_seeds p =
     (case tumour_multiplicity p of
        Single \<Rightarrow>
          (let initLoc = (\<lfloor>of_int (matrix_size p) * (1 / 2 :: rat)\<rfloor>,
                          \<lfloor>of_int (matrix_size p) * (1 / 2 :: rat)\<rfloor>)
           in andthen (setitem p initLoc 1) (\<lambda>_ s.
                Return () (s\<lparr>mut_container := [(0, 0), (0, 1)], pool := [initLoc]\<rparr>)))
      | Double \<Rightarrow>
          (let initLoc = (\<lfloor>of_int (matrix_size p) * (45 / 100 :: rat)\<rfloor>,
                          \<lfloor>of_int (matrix_size p) * (1 / 2 :: rat)\<rfloor>);
               secondinitLoc = (\<lfloor>of_int (matrix_size p) * (65 / 100 :: rat)\<rfloor>,
                                \<lfloor>of_int (matrix_size p) * (51 / 100 :: rat)\<rfloor>)
           in andthen (setitem p initLoc 1) (\<lambda>_.
              andthen (setitem p secondinitLoc 2) (\<lambda>_ s.
                Return () (s\<lparr>mut_container := [(0, 0), (0, 1), (0, 2)],
                              pool := [initLoc, secondinitLoc]\<rparr>)))))"

definition run ::
  "(int \<Rightarrow> nat list) \<Rightarrow> parameters \<Rightarrow> int \<Rightarrow> simulator \<Rightarrow> (int \<times> rat) list option outcome" where
  "run twister p seed =
     andthen (place_seeds p) (\<lambda>_.
     andthen (\<lambda>s. Return () (s\<lparr>growth_plot_data := [], prng := twister seed\<rparr>)) (\<lambda>_.
     tumourGrowth p))"

subsection \<open>Invariants\<close>

text \<open>
  The ledger is addressed by clone-id: the entry at position \<open>i\<close> has the own-id \<open>i\<close>,
  and the parent of every entry but the first is a smaller id.
\<close>

definition ledger_ok :: "simulator \<Rightarrow> bool" where
  "ledger_ok s =
     (\<forall>i < length (mut_container s).
        snd (mut_container s ! i) = int i \<and> 0 \<le> fst (mut_container s ! i)
        \<and> (0 < i \<longrightarrow> fst (mut_container s ! i) < int i))"

text \<open>Every entry of the matrix and every beneficial id is a position of the ledger.\<close>

definition grid_ok :: "simulator \<Rightarrow> bool" where
  "grid_ok s = (\<forall>k. 0 \<le> mtx s k \<and> mtx s k < int (length (mut_container s)))"

definition ben_ok :: "simulator \<Rightarrow> bool" where
  "ben_ok s = (\<forall>b\<in>set (benefitial_mutation s). b < int (length (mut_container s)))"

text \<open>
  What holds between two statements of the growth loop, the mutation counter being \<open>c\<close>
  (in single tumour mode the counter is the last position of the ledger), and what still
  holds when a statement raises.
\<close>

definition growth_inv :: "bool \<Rightarrow> int \<Rightarrow> simulator \<Rightarrow> bool" where
  "growth_inv single c s =
     (grid_ok s \<and> ben_ok s
      \<and> (single \<longrightarrow> ledger_ok s \<and> int (length (mut_container s)) = c + 1))"

definition raised_inv :: "bool \<Rightarrow> simulator \<Rightarrow> bool" where
  "raised_inv single s = (ben_ok s \<and> (single \<longrightarrow> ledger_ok s))"

text \<open>
  What holds inside \<^verbatim>\<open>mutation\<close> once the daughter's entry of the matrix is set to the
  length of the ledger, before the ledger grows.
\<close>

definition daughter_placed :: "bool \<Rightarrow> int \<Rightarrow> simulator \<Rightarrow> bool" where
  "daughter_placed single c s =
     (ben_ok s \<and> (\<forall>k. 0 \<le> mtx s k \<and> mtx s k \<le> int (length (mut_container s)))
      \<and> (single \<longrightarrow> ledger_ok s \<and> int (length (mut_container s)) = c + 1))"

text \<open>
  \<open>establishes P m Q E\<close>: started in a state with \<open>P\<close>, the computation \<open>m\<close> returns a
  value and a state with \<open>Q\<close>, or raises or hangs in a state with \<open>E\<close>.
\<close>

definition establishes ::
  "(simulator \<Rightarrow> bool) \<Rightarrow> (simulator \<Rightarrow> 'a outcome) \<Rightarrow> ('a \<Rightarrow> simulator \<Rightarrow> bool)
     \<Rightarrow> (simulator \<Rightarrow> bool) \<Rightarrow> bool" where
  "establishes P m Q E =
     (\<forall>s. P s \<longrightarrow>
        (case m s of Raise e s' \<Rightarrow> E s' | Return x s' \<Rightarrow> Q x s' | Hang s' \<Rightarrow> E s'))"

text \<open>The beneficial list of a state starts with the list \<open>xs\<close>.\<close>

definition extends :: "int list \<Rightarrow> simulator \<Rightarrow> bool" where
  "extends xs s = prefix xs (benefitial_mutation s)"

named_theorems extends_intros \<open>steps that keep a prefix of the beneficial list\<close>

subsection \<open>Scenarios\<close>

text \<open>
  Three parameter bundles that pass the validation of \<^verbatim>\<open>CancerSimulatorParameters\<close>,
  and three states of a simulator, for the concrete runs below.
\<close>

definition single_scenario :: parameters where
  "single_scenario =
     \<lparr>matrix_size = 5, number_of_generations = 2, division_probability = 1,
      advantageous_division_probability = 1, death_probability = 0,
      fitness_advantage_death_probability = 1, mutation_rate = 1,
      advantageous_mutation_probability = 1, mutations_per_division = 1,
      time_of_advantageous_mutation = 0, number_of_clonal = 1,
      tumour_multiplicity = Single\<rparr>"

definition double_scenario :: parameters where
  "double_scenario =
     \<lparr>matrix_size = 10, number_of_generations = 1, division_probability = 1,
      advantageous_division_probability = 1, death_probability = 0,
      fitness_advantage_death_probability = 0, mutation_rate = 1,
      advantageous_mutation_probability = 1, mutations_per_division = 1,
      time_of_advantageous_mutation = 50000, number_of_clonal = 1,
      tumour_multiplicity = Double\<rparr>"

definition edge_scenario :: parameters where
  "edge_scenario =
     \<lparr>matrix_size = 3, number_of_generations = 2, division_probability = 1,
      advantageous_division_probability = 1, death_probability = 0,
      fitness_advantage_death_probability = 0, mutation_rate = 0,
      advantageous_mutation_probability = 1, mutations_per_division = 1,
      time_of_advantageous_mutation = 0, number_of_clonal = 1,
      tumour_multiplicity = Single\<rparr>"

text \<open>
  A 3 by 3 lattice after the seed cell at \<open>(1, 1)\<close> has divided into the corner
  \<open>(0, 0)\<close> without mutating.
\<close>

definition corner_state :: simulator where
  "corner_state =
     \<lparr>mtx = (\<lambda>_. 0)((1, 1) := 1, (0, 0) := 1), mut_container = [(0, 0), (0, 1)],
      pool = [(1, 1), (0, 0)], benefitial_mutation = [], growth_plot_data = [2, 2],
      prng = [], np_random = []\<rparr>"

text \<open>
  A 5 by 5 lattice in generation 0, before the death step: the seed cell at \<open>(2, 2)\<close> has
  divided into \<open>(1, 3)\<close> with a mutation, the daughter (clone 2) carrying the
  beneficial mutation.
\<close>

definition advantaged_state :: simulator where
  "advantaged_state =
     \<lparr>mtx = (\<lambda>_. 0)((1, 3) := 2, (2, 2) := 3),
      mut_container = [(0, 0), (0, 1), (1, 2), (1, 3)],
      pool = [(2, 2), (1, 3)], benefitial_mutation = [2], growth_plot_data = [2],
      prng = [], np_random = []\<rparr>"


section \<open>Basic facts\<close>

lemma andthen_Return [simp]: "m s = Return x s' \<Longrightarrow> andthen m f s = f x s'"
  by (simp add: andthen_def)

lemma andthen_Raise [simp]: "m s = Raise e s' \<Longrightarrow> andthen m f s = Raise e s'"
  by (simp add: andthen_def)

lemma draw_fields [simp]:
  "mtx (snd (draw s)) = mtx s" "mut_container (snd (draw s)) = mut_container s"
  "pool (snd (draw s)) = pool s" "benefitial_mutation (snd (draw s)) = benefitial_mutation s"
  "growth_plot_data (snd (draw s)) = growth_plot_data s" "np_random (snd (draw s)) = np_random s"
  by (simp_all add: draw_def split: list.splits)

section \<open>The last generation\<close>

lemma reconstruct_pool_Cons_raises: "\<exists>e. reconstruct_pool p (i # rest) s = Raise e s"
  by (simp add: andthen_def getitem_def mutation_reconstruction_of_def split: sum.splits)

lemma final_spectrum_raises: "\<exists>e. final_spectrum p s = Raise e s"
proof (cases "pool s")
  case Nil
  then show ?thesis
    by (simp add: final_spectrum_def andthen_def lift_def bulk_seq_def np_min_def)
next
  case (Cons i rest)
  obtain e where "reconstruct_pool p (i # rest) s = Raise e s"
    using reconstruct_pool_Cons_raises by blast
  with Cons show ?thesis
    by (simp add: final_spectrum_def andthen_def)
qed

lemma growth_loop_no_spectrum: "growth_loop p k step c s \<noteq> Return (Some v) s'"
proof (induction k arbitrary: step c s)
  case 0
  show ?case by simp
next
  case (Suc k)
  show ?case
  proof (cases "generation p step c s")
    case (Raise e t)
    then show ?thesis by simp
  next
    case (Return c' t)
    obtain e where "final_spectrum p t = Raise e t"
      using final_spectrum_raises by blast
    with Return Suc show ?thesis by (simp add: andthen_def)
  next
    case (Hang t)
    then show ?thesis by simp
  qed
qed

text \<open>
  C1. No run returns a spectrum. On the last generation the growth loop calls
  \<^verbatim>\<open>mutation_reconstruction\<close> with an argument the method does not take, which raises
  TypeError for the first cell of the pool; with an empty pool the histogram of nothing
  raises ValueError. So the last generation always raises, and \<^verbatim>\<open>run\<close> never gets a
  spectrum back from \<^verbatim>\<open>tumourGrowth\<close>.
\<close>

theorem run_never_returns_spectrum:
  "(\<exists>e. final_spectrum p s = Raise e s) \<and> run twister p seed s \<noteq> Return (Some v) s'"
  by (auto simp: final_spectrum_raises run_def andthen_def tumourGrowth_def
      growth_loop_no_spectrum split: outcome.splits)

section \<open>The generators\<close>

text \<open>
  C2. The scaling step takes its Poisson counts from numpy's generator, which the seed of a
  run does not reach: with the same state of Python's generator and two states of numpy's,
  the same entry is dropped in one case and tripled in the other.
\<close>

theorem increase_mut_number_unseeded:
  "\<exists>a b. increase_mut_number single_scenario [(2, 1)] (init [0]) = Return [] a
     \<and> increase_mut_number single_scenario [(2, 1)] (init [3])
         = Return [(2, 1), (2, 1), (2, 1)] b
     \<and> prng (init [0]) = prng (init [3])"
  by (simp add: single_scenario_def init_def np_random_poisson_def numeral_3_eq_3)

section \<open>Neighbours\<close>

text \<open>
  C8 (as stated, refuted). On a 3 by 3 lattice the free neighbours of the corner cell
  \<open>(0, 0)\<close> include coordinates with the index \<open>-1\<close>, which the matrix reads from its
  opposite edge.
\<close>

theorem neighbours_corner_counterexample:
  "neighbours edge_scenario corner_state (0, 0) =
     Inr [(- 1, 1), (0, 1), (- 1, 0), (1, 0), (- 1, - 1), (0, - 1), (1, - 1)]"
  by (simp add: neighbours_def neighboursList_def locate_def index_in_def edge_scenario_def
      corner_state_def)

text \<open>
  C8 (amended). For a cell whose row and column are at least 1 and at most
  \<open>matrix_size - 2\<close>, the neighbour query returns the free ones among its eight
  neighbours, each of them inside the lattice.
\<close>

theorem neighbours_interior:
  assumes "1 \<le> fst cell" "fst cell + 1 < matrix_size p"
    and "1 \<le> snd cell" "snd cell + 1 < matrix_size p"
  shows "\<exists>ns. neighbours p s cell = Inr ns
           \<and> ns = filter (\<lambda>y. mtx s y = 0) (neighboursList cell)
           \<and> (\<forall>y\<in>set ns. mtx s y = 0 \<and> 0 \<le> fst y \<and> fst y < matrix_size p
                                \<and> 0 \<le> snd y \<and> snd y < matrix_size p)"
  using assms
  by (auto simp: neighbours_def neighboursList_def locate_def index_in_def)

theorem neighbours_interior_witness:
  "(1::int) \<le> fst (1, 1 :: int) \<and> fst (1 :: int, 1 :: int) + 1 < matrix_size edge_scenario
   \<and> neighbours edge_scenario corner_state (1, 1) =
         Inr [(0, 2), (1, 2), (2, 2), (0, 1), (2, 1), (1, 0), (2, 0)]"
  using neighbours_interior [of "(1, 1)" edge_scenario corner_state]
  by (simp add: edge_scenario_def corner_state_def neighboursList_def)

text \<open>
  The wrap-around happens in runs: with these draws the seed cell of the 3 by 3 lattice
  divides into the corner \<open>(0, 0)\<close> in generation 0 and the corner cell divides into
  \<open>(- 1, 1)\<close> in generation 1, a coordinate that enters the pool.
\<close>

lemma edge_run_wraps:
  "pool (state_of (run (\<lambda>_. [0, 5, 0, 1, 0, 0, 0, 0, 0, 0]) edge_scenario 1 (init [])))
     = [(1, 1), (0, 0), (0, 2), (- 1, 1)]"
  by code_simp

section \<open>The death step\<close>

subsection \<open>Rounding to a double\<close>



lemma binade_le_52:
  assumes "x < 2 ^ 53"
  shows "binade x \<le> 52"
proof (cases "1 \<le> x")
  case True
  from assms have "\<lfloor>x\<rfloor> < 2 ^ 53" by (simp add: floor_less_iff)
  then have "bitlen \<lfloor>x\<rfloor> \<le> 53" by (simp add: bitlen_le_iff_power)
  with True show ?thesis by (simp add: binade_def)
next
  case False
  then show ?thesis using bitlen_nonneg [of "\<lceil>1 / x\<rceil> - 1"] by (simp add: binade_def)
qed

lemma ulp_small:
  assumes "x < 2 ^ 53"
  shows "\<exists>N::nat. ulp x = 1 / 2 ^ N"
proof -
  define j where "j = max (binade x - 52) (- 1074)"
  have "j \<le> 0" using binade_le_52 [OF assms] by (simp add: j_def)
  have "power_int (2::rat) j = 1 / 2 ^ nat (- j)"
  proof (cases "j = 0")
    case True
    then show ?thesis by (simp add: power_int_def)
  next
    case False
    with \<open>j \<le> 0\<close> have "\<not> 0 \<le> j" by simp
    then have "power_int (2::rat) j = inverse 2 ^ nat (- j)"
      by (simp only: power_int_def if_False)
    also have "\<dots> = 1 / 2 ^ nat (- j)"
      by (simp add: power_one_over inverse_eq_divide)
    finally show ?thesis .
  qed
  then show ?thesis unfolding ulp_def j_def [symmetric] by blast
qed



lemma round_half_even_of_int: "round_half_even (of_int z) = z"
  by (simp add: round_half_even_def)

lemma round_half_even_near: "\<bar>of_int (round_half_even q) - q\<bar> \<le> 1 / 2"
proof -
  have "of_int \<lfloor>q\<rfloor> \<le> q" "q < of_int \<lfloor>q\<rfloor> + 1" by linarith+
  then show ?thesis unfolding round_half_even_def
    by (simp only: of_int_add of_int_1 split: if_splits) (intro conjI impI; linarith)
qed

lemma to_float_of_nat:
  assumes "n < 2 ^ 53"
  shows "to_float (of_nat n) = of_nat n"
proof (cases "n = 0")
  case True
  then show ?thesis by (simp add: to_float_def)
next
  case False
  have "(of_nat n :: rat) < 2 ^ 53" using assms
    by (metis of_nat_less_iff of_nat_numeral of_nat_power)
  from ulp_small [OF this] obtain N :: nat where u: "ulp (of_nat n) = 1 / 2 ^ N" by blast
  have "of_nat n / ulp (of_nat n) = (of_int (int n * 2 ^ N) :: rat)" by (simp add: u)
  then have "round_half_even (of_nat n / ulp (of_nat n)) = int n * 2 ^ N"
    by (simp only: round_half_even_of_int)
  with False show ?thesis by (simp add: to_float_def u)
qed

lemma to_float_near:
  assumes "0 < x"
  shows "\<bar>to_float x - x\<bar> \<le> ulp x / 2"
proof -
  have u: "0 < ulp x" by (simp add: ulp_def)
  have "\<bar>of_int (round_half_even (x / ulp x)) - x / ulp x\<bar> * ulp x \<le> 1 / 2 * ulp x"
    using round_half_even_near [of "x / ulp x"] u by (intro mult_right_mono) simp_all
  moreover have "of_int (round_half_even (x / ulp x)) * ulp x - x
      = (of_int (round_half_even (x / ulp x)) - x / ulp x) * ulp x"
    using u by (simp add: left_diff_distrib)
  then have "\<bar>of_int (round_half_even (x / ulp x)) - x / ulp x\<bar> * ulp x
      = \<bar>of_int (round_half_even (x / ulp x)) * ulp x - x\<bar>"
    using u by (simp only: abs_mult abs_of_pos)
  ultimately show ?thesis using assms by (simp add: to_float_def)
qed


text \<open>
  With a death probability of 0.29 and 100 cells, 28 cells are to die; with the double
  next to 0.3 and 10 cells, 3 cells, where the floor of the product that is not rounded
  is 2.
\<close>

lemma death_count_examples:
  "death_count (single_scenario\<lparr>death_probability := 29 / 100\<rparr>) 100 = 28"
  "death_count (single_scenario\<lparr>death_probability := to_float (3 / 10)\<rparr>) 10 = 3"
  "\<lfloor>to_float (3 / 10) * 10\<rfloor> = 2"
  by code_simp+

subsection \<open>Sampling\<close>



lemma finite_positions [simp]: "finite (positions n g)"
  by (simp add: positions_def)






text \<open>
  A population of 30 with a sample of 3 takes the second loop: the raw outcomes 5, 5, 35
  and 7 select the position 5, draw again twice (5 and 35 are the position 5 again) and
  select 7; the exhausted generator then delivers 0.
\<close>

lemma prng_sample_redraws:
  "(case prng_sample [0..<30] 3 (init []\<lparr>prng := [5, 5, 35, 7]\<rparr>) of
   Return r s \<Rightarrow> r = [5, 7, 0] \<and> prng s = [] | _ \<Rightarrow> False)"
  by code_simp

lemma setsize_examples: "setsize 6 = 85" "setsize 5 = 21" "setsize 22 = 277"
  by code_simp+

subsection \<open>Removal of the cells sampled\<close>












section \<open>Division of a cell with the beneficial mutation\<close>

lemma prng_random_fields:
  assumes "prng_random s = Return u t"
  shows "mtx t = mtx s" "mut_container t = mut_container s" "pool t = pool s"
    "benefitial_mutation t = benefitial_mutation s"
proof -
  from assms have "t = snd (draw s)" by (simp add: prng_random_def split: prod.splits)
  then show "mtx t = mtx s" "mut_container t = mut_container s" "pool t = pool s"
    "benefitial_mutation t = benefitial_mutation s" by simp_all
qed

text \<open>
  C10. Let a live cell whose clone-id is in the beneficial set divide into a free place, the
  draw against the mutation rate succeeding, in a state where every beneficial id is a
  position of the ledger (as it is throughout a run, see \<open>ben_ok\<close> below). Then the
  daughter gets the id that was the length of the ledger and only this id is appended to
  the beneficial set; the mother gets the next id, which is not in the set.
\<close>

theorem mutation_of_advantaged_cell:
  assumes "locate p cell = Inr kc" "locate p place_to_divide = Inr kp"
    and "mtx s kp = 0" "0 < mtx s kc" "mtx s kc < int (length (mut_container s))"
    and "mtx s kc \<in> set (benefitial_mutation s)"
    and "\<forall>b\<in>set (benefitial_mutation s). b < int (length (mut_container s))"
    and "prng_random s = Return u t" "u < mutation_rate p"
  shows "\<exists>s'. mutation p cell step mutation_counter place_to_divide True s
                 = Return (mutation_counter + 2) s'
     \<and> benefitial_mutation s' = benefitial_mutation s @ [int (length (mut_container s))]
     \<and> mtx s' kp = int (length (mut_container s))
     \<and> mtx s' kc = int (length (mut_container s)) + 1
     \<and> mtx s' kp \<in> set (benefitial_mutation s')
     \<and> mtx s' kc \<notin> set (benefitial_mutation s')"
proof -
  note f = prng_random_fields [OF assms(8)]
  have ne: "kc \<noteq> kp" using assms(3,4) by auto
  show ?thesis
    using assms ne f
    by (auto simp: mutation_def append_lineage_def mark_benefitial_def andthen_def setitem_def getitem_def ledger_entry_def
        py_index_def index_in_def lift_def append_ledger_def append_benefitial_def)
qed

theorem mutation_of_advantaged_cell_witness:
  "locate single_scenario (1, 3) = Inr (1, 3) \<and> locate single_scenario (0, 4) = Inr (0, 4)
   \<and> mtx advantaged_state (0, 4) = 0 \<and> mtx advantaged_state (1, 3) = 2
   \<and> length (mut_container advantaged_state) = 4
   \<and> benefitial_mutation advantaged_state = [2]
   \<and> prng_random advantaged_state = Return 0 advantaged_state
   \<and> 0 < mutation_rate single_scenario
   \<and> (\<exists>s'. mutation single_scenario (1, 3) 1 3 (0, 4) True advantaged_state = Return 5 s'
          \<and> benefitial_mutation s' = [2, 4] \<and> mtx s' (0, 4) = 4 \<and> mtx s' (1, 3) = 5)"
proof -
  have h: "locate single_scenario (1, 3) = Inr (1, 3)" "locate single_scenario (0, 4) = Inr (0, 4)"
    "mtx advantaged_state (0, 4) = 0" "0 < mtx advantaged_state (1, 3)"
    "mtx advantaged_state (1, 3) < int (length (mut_container advantaged_state))"
    "mtx advantaged_state (1, 3) \<in> set (benefitial_mutation advantaged_state)"
    "\<forall>b\<in>set (benefitial_mutation advantaged_state).
        b < int (length (mut_container advantaged_state))"
    "prng_random advantaged_state = Return 0 advantaged_state"
    "0 < mutation_rate single_scenario"
    by (simp_all add: single_scenario_def advantaged_state_def locate_def index_in_def
        prng_random_def draw_def)
  from mutation_of_advantaged_cell [OF h, of 1 3] h show ?thesis
    by (auto simp: advantaged_state_def)
qed

section \<open>The invariants of the growth loop\<close>

subsection \<open>Rules\<close>

lemma establishes_andthen:
  assumes "establishes P m R E" and "\<And>x. establishes (R x) (f x) Q E"
  shows "establishes P (andthen m f) Q E"
  using assms unfolding establishes_def andthen_def
  by (fastforce split: outcome.splits)

lemma establishes_Return:
  assumes "\<And>s. P s \<Longrightarrow> Q x s"
  shows "establishes P (Return x) Q E"
  using assms by (simp add: establishes_def)

lemma establishes_weaken:
  assumes "establishes P' m Q' E'"
    and "\<And>s. P s \<Longrightarrow> P' s" "\<And>x s. Q' x s \<Longrightarrow> Q x s" "\<And>s. E' s \<Longrightarrow> E s"
  shows "establishes P m Q E"
  using assms unfolding establishes_def
  by (fastforce split: outcome.splits)

lemma establishes_if:
  assumes "c \<Longrightarrow> establishes P m Q E" and "\<not> c \<Longrightarrow> establishes P n Q E"
  shows "establishes P (if c then m else n) Q E"
  using assms by simp

lemma establishes_state_if:
  assumes "establishes (\<lambda>s. P s \<and> c s) m Q E" and "establishes (\<lambda>s. P s \<and> \<not> c s) n Q E"
  shows "establishes P (\<lambda>s. if c s then m s else n s) Q E"
  using assms by (simp add: establishes_def)

subsection \<open>Primitives\<close>

lemma establishes_prng_random:
  assumes "\<And>s. P s \<Longrightarrow> Q (snd (draw s))"
  shows "establishes P prng_random (\<lambda>_. Q) E"
  using assms by (auto simp: establishes_def prng_random_def split: prod.splits) (metis snd_conv)

lemma establishes_prng_choice:
  assumes "\<And>s. P s \<Longrightarrow> Q (snd (draw s))" and "\<And>s. P s \<Longrightarrow> E s"
  shows "establishes P (prng_choice xs) (\<lambda>x s. Q s \<and> x \<in> set xs) E"
  using assms by (auto simp: establishes_def prng_choice_def split: prod.splits) (metis snd_conv)

lemma establishes_getitem:
  assumes "\<And>s. P s \<Longrightarrow> E s"
  shows "establishes P (getitem p c) (\<lambda>v s. P s \<and> v \<in> range (mtx s)) E"
  using assms by (auto simp: establishes_def getitem_def split: sum.splits)

lemma establishes_setitem:
  assumes "\<And>s k. P s \<Longrightarrow> Q (s\<lparr>mtx := (mtx s)(k := f s)\<rparr>)" and "\<And>s. P s \<Longrightarrow> E s"
  shows "establishes P (\<lambda>s. setitem p c (f s) s) (\<lambda>_. Q) E"
  using assms by (auto simp: establishes_def setitem_def split: sum.splits)

lemma establishes_ledger_entry:
  assumes "\<And>s. P s \<Longrightarrow> E s"
  shows "establishes P (ledger_entry c)
           (\<lambda>mc s. P s \<and> (0 \<le> c \<longrightarrow> c < int (length (mut_container s))
                                    \<and> mc = mut_container s ! nat c)) E"
  using assms
  by (auto simp: establishes_def ledger_entry_def lift_def py_index_def index_in_def)

lemma establishes_append_ledger:
  assumes "\<And>s. P s \<Longrightarrow> Q (s\<lparr>mut_container := mut_container s @ [e]\<rparr>)"
  shows "establishes P (append_ledger e) (\<lambda>_. Q) E"
  using assms by (simp add: establishes_def append_ledger_def)

lemma establishes_append_benefitial:
  assumes "\<And>s. P s \<Longrightarrow> Q (s\<lparr>benefitial_mutation := benefitial_mutation s @ [d]\<rparr>)"
  shows "establishes P (append_benefitial d) (\<lambda>_. Q) E"
  using assms by (simp add: establishes_def append_benefitial_def)

subsection \<open>The invariant and the fields it does not read\<close>

lemma growth_inv_draw [simp]: "growth_inv b c (snd (draw s)) = growth_inv b c s"
  by (simp add: growth_inv_def grid_ok_def ben_ok_def ledger_ok_def)

lemma inv_raised_draw [simp]: "raised_inv b (snd (draw s)) = raised_inv b s"
  by (simp add: raised_inv_def ben_ok_def ledger_ok_def)

lemma growth_inv_raised: "growth_inv b c s \<Longrightarrow> raised_inv b s"
  by (simp add: growth_inv_def raised_inv_def)

subsection \<open>Mutation\<close>

lemma grid_okD: "grid_ok s \<Longrightarrow> 0 \<le> mtx s k \<and> mtx s k < int (length (mut_container s))"
  unfolding grid_ok_def by blast

lemma ledger_ok_snoc:
  assumes "ledger_ok s" and "own = int (length (mut_container s))"
    and "0 \<le> parent" and "parent < own"
  shows "ledger_ok (s\<lparr>mut_container := mut_container s @ [(parent, own)]\<rparr>)"
  unfolding ledger_ok_def
proof (intro allI impI)
  fix i
  assume "i < length (mut_container (s\<lparr>mut_container := mut_container s @ [(parent, own)]\<rparr>))"
  then have "i < length (mut_container s) \<or> i = length (mut_container s)" by auto
  then show "snd (mut_container (s\<lparr>mut_container := mut_container s @ [(parent, own)]\<rparr>) ! i) = int i
      \<and> 0 \<le> fst (mut_container (s\<lparr>mut_container := mut_container s @ [(parent, own)]\<rparr>) ! i)
      \<and> (0 < i \<longrightarrow> fst (mut_container (s\<lparr>mut_container := mut_container s @ [(parent, own)]\<rparr>) ! i) < int i)"
  proof
    assume "i < length (mut_container s)"
    with assms(1) show ?thesis by (simp add: ledger_ok_def nth_append)
  next
    assume "i = length (mut_container s)"
    with assms(2-4) show ?thesis by simp
  qed
qed

lemma ledger_ok_own: "ledger_ok s \<Longrightarrow> 0 \<le> c \<Longrightarrow> c < int (length (mut_container s))
    \<Longrightarrow> snd (mut_container s ! nat c) = c"
  by (simp add: ledger_ok_def)

lemma daughter_placed_raised: "daughter_placed b c s \<Longrightarrow> raised_inv b s"
  by (simp add: daughter_placed_def raised_inv_def)

lemma daughter_placed_set:
  assumes "growth_inv b c s"
  shows "daughter_placed b c (s\<lparr>mtx := (mtx s)(k := int (length (mut_container s)))\<rparr>)"
proof -
  have g: "\<And>k. 0 \<le> mtx s k \<and> mtx s k < int (length (mut_container s))"
    using assms by (simp add: growth_inv_def grid_okD)
  have "\<And>k'. 0 \<le> ((mtx s)(k := int (length (mut_container s)))) k'
        \<and> ((mtx s)(k := int (length (mut_container s)))) k' \<le> int (length (mut_container s))"
    using g by (simp add: less_imp_le)
  then show ?thesis
    using assms by (simp add: growth_inv_def daughter_placed_def ben_ok_def ledger_ok_def del: split_paired_All)
qed

lemma daughter_placed_append:
  assumes "daughter_placed b c s" "0 \<le> c0" "c0 < int (length (mut_container s))"
    and "mc = mut_container s ! nat c0"
  shows "growth_inv b (c + 1) (s\<lparr>mut_container := mut_container s @ [(snd mc, c + 1)]\<rparr>)"
proof -
  let ?s = "s\<lparr>mut_container := mut_container s @ [(snd mc, c + 1)]\<rparr>"
  have g: "\<And>k. 0 \<le> mtx s k \<and> mtx s k \<le> int (length (mut_container s))"
    using assms(1) by (simp add: daughter_placed_def del: split_paired_All)
  have "grid_ok ?s"
    unfolding grid_ok_def
  proof
    fix k
    from g [of k] show "0 \<le> mtx ?s k \<and> mtx ?s k < int (length (mut_container ?s))" by simp
  qed
  moreover have "ben_ok ?s"
    using assms(1) by (auto simp: daughter_placed_def ben_ok_def)
  moreover have "ledger_ok ?s \<and> int (length (mut_container ?s)) = c + 1 + 1" if b
  proof -
    from that assms(1) have l: "ledger_ok s" and n: "int (length (mut_container s)) = c + 1"
      by (simp_all add: daughter_placed_def)
    have "snd mc = c0" using ledger_ok_own [OF l assms(2,3)] assms(4) by simp
    with ledger_ok_snoc [OF l, of "c + 1" "snd mc"] n assms(2,3) show ?thesis by simp
  qed
  ultimately show ?thesis by (simp add: growth_inv_def)
qed

lemma growth_inv_placed: "growth_inv b c s \<Longrightarrow> daughter_placed b c s"
  using grid_okD [of s]
  by (simp add: growth_inv_def daughter_placed_def less_imp_le del: split_paired_All)

lemma growth_inv_set:
  assumes "growth_inv b c s" "0 \<le> v" "v < int (length (mut_container s))"
  shows "growth_inv b c (s\<lparr>mtx := (mtx s)(k := v)\<rparr>)"
proof -
  have "grid_ok (s\<lparr>mtx := (mtx s)(k := v)\<rparr>)"
    unfolding grid_ok_def
  proof
    fix k'
    from assms grid_okD [of s k']
    show "0 \<le> mtx (s\<lparr>mtx := (mtx s)(k := v)\<rparr>) k'
      \<and> mtx (s\<lparr>mtx := (mtx s)(k := v)\<rparr>) k'
          < int (length (mut_container (s\<lparr>mtx := (mtx s)(k := v)\<rparr>)))"
      by (simp add: growth_inv_def)
  qed
  then show ?thesis using assms(1) by (simp add: growth_inv_def ben_ok_def ledger_ok_def)
qed

lemma establishes_append_lineage:
  "establishes (daughter_placed b c) (append_lineage p cell (c + 1))
     (\<lambda>_. growth_inv b (c + 1)) (raised_inv b)"
  unfolding append_lineage_def
proof (rule establishes_andthen [OF establishes_getitem], erule daughter_placed_raised)
  fix v
  show "establishes (\<lambda>s. daughter_placed b c s \<and> v \<in> range (mtx s))
          (andthen (ledger_entry v) (\<lambda>mc. append_ledger (snd mc, c + 1)))
          (\<lambda>_. growth_inv b (c + 1)) (raised_inv b)"
  proof (rule establishes_andthen [OF establishes_ledger_entry])
    show "\<And>s. daughter_placed b c s \<and> v \<in> range (mtx s) \<Longrightarrow> raised_inv b s"
      by (blast intro: daughter_placed_raised)
  next
    fix mc
    show "establishes
            (\<lambda>s. (daughter_placed b c s \<and> v \<in> range (mtx s))
                 \<and> (0 \<le> v \<longrightarrow> v < int (length (mut_container s)) \<and> mc = mut_container s ! nat v))
            (append_ledger (snd mc, c + 1)) (\<lambda>_. growth_inv b (c + 1)) (raised_inv b)"
    proof (rule establishes_append_ledger)
      fix s
      assume a: "(daughter_placed b c s \<and> v \<in> range (mtx s))
                 \<and> (0 \<le> v \<longrightarrow> v < int (length (mut_container s)) \<and> mc = mut_container s ! nat v)"
      then have "0 \<le> v" by (auto simp: daughter_placed_def simp del: split_paired_All)
      with a show "growth_inv b (c + 1) (s\<lparr>mut_container := mut_container s @ [(snd mc, c + 1)]\<rparr>)"
        by (intro daughter_placed_append [where ?c0.0 = v]) simp_all
    qed
  qed
qed

lemma establishes_mark_benefitial:
  "establishes (growth_inv b c) (mark_benefitial p place) (\<lambda>_. growth_inv b c) (raised_inv b)"
  unfolding mark_benefitial_def
proof (rule establishes_andthen [OF establishes_getitem], erule growth_inv_raised)
  fix d
  show "establishes (\<lambda>s. growth_inv b c s \<and> d \<in> range (mtx s)) (append_benefitial d)
          (\<lambda>_. growth_inv b c) (raised_inv b)"
  proof (rule establishes_append_benefitial)
    fix s
    assume a: "growth_inv b c s \<and> d \<in> range (mtx s)"
    then have "d < int (length (mut_container s))"
      using grid_okD [of s] by (auto simp: growth_inv_def simp del: split_paired_All)
    with a show "growth_inv b c (s\<lparr>benefitial_mutation := benefitial_mutation s @ [d]\<rparr>)"
      by (simp add: growth_inv_def grid_ok_def ben_ok_def ledger_ok_def)
  qed
qed

lemma growth_inv_ledger_nonempty: "growth_inv b c s \<Longrightarrow> 0 < int (length (mut_container s))"
  using grid_okD [of s "(0, 0)"] by (auto simp: growth_inv_def)

lemma establishes_mutation:
  "establishes (growth_inv b c) (mutation p cell step c place_to_divide benefitial)
     (growth_inv b) (raised_inv b)"
  unfolding mutation_def
  apply (rule establishes_andthen [where R = "\<lambda>_. growth_inv b c"])
   apply (rule establishes_prng_random, simp)
  apply (rule establishes_if)
   apply (rule establishes_andthen [where R = "\<lambda>_. daughter_placed b c"])
    apply (rule establishes_setitem, erule daughter_placed_set, erule growth_inv_raised)
   apply (rule establishes_andthen [OF establishes_append_lineage])
   apply (rule establishes_andthen [where R = "\<lambda>_. growth_inv b (c + 1)"])
    apply (rule establishes_if)
     apply (rule establishes_mark_benefitial)
    apply (rule establishes_andthen [where R = "\<lambda>_. growth_inv b (c + 1)"])
     apply (rule establishes_prng_random, simp)
    apply (rule establishes_state_if)
     apply (rule establishes_weaken [OF establishes_mark_benefitial [of b "c + 1"]], simp, simp, simp)
    apply (rule establishes_Return, simp)
   apply (rule establishes_andthen [where R = "\<lambda>_. growth_inv b (c + 1 + 1)"])
    apply (rule establishes_weaken [OF establishes_append_lineage [of b "c + 1"]],
      erule growth_inv_placed, simp, simp)
   apply (rule establishes_andthen [where R = "\<lambda>_. growth_inv b (c + 1 + 1)"])
    apply (rule establishes_setitem)
     apply (rule growth_inv_set, assumption)
      apply (drule growth_inv_ledger_nonempty, simp)
     apply simp
    apply (erule growth_inv_raised)
   apply (rule establishes_Return, simp)
  apply (rule establishes_andthen [OF establishes_getitem], erule growth_inv_raised)
  apply (rule establishes_andthen [where R = "\<lambda>_. growth_inv b c"])
   apply (rule establishes_setitem)
    apply (rule growth_inv_set, simp)
     apply (metis grid_okD growth_inv_def rangeE)
    apply (metis grid_okD growth_inv_def rangeE)
   apply (blast intro: growth_inv_raised)
  apply (rule establishes_Return, simp)
  done

subsection \<open>Steps that leave matrix, ledger and beneficial set alone\<close>

lemma growth_inv_cong:
  assumes "mtx t = mtx s" "mut_container t = mut_container s"
    and "benefitial_mutation t = benefitial_mutation s"
  shows "growth_inv b c t = growth_inv b c s"
  using assms by (simp add: growth_inv_def grid_ok_def ben_ok_def ledger_ok_def)

lemma raised_inv_cong:
  assumes "mut_container t = mut_container s"
    and "benefitial_mutation t = benefitial_mutation s"
  shows "raised_inv b t = raised_inv b s"
  using assms by (simp add: raised_inv_def ben_ok_def ledger_ok_def)

lemma shuffle_loop_fields:
  "mtx (shuffle_loop n s) = mtx s \<and> mut_container (shuffle_loop n s) = mut_container s
   \<and> benefitial_mutation (shuffle_loop n s) = benefitial_mutation s"
proof (induction n arbitrary: s)
  case 0
  show ?case by simp
next
  case (Suc n)
  obtain x s' where d: "draw s = (x, s')" by (cases "draw s")
  then have "s' = snd (draw s)" by simp
  then have "mtx s' = mtx s" "mut_container s' = mut_container s"
    "benefitial_mutation s' = benefitial_mutation s" by simp_all
  then show ?case using d Suc.IH by (simp add: Let_def)
qed

lemma growth_inv_shuffle_loop [simp]: "growth_inv b c (shuffle_loop n s) = growth_inv b c s"
  by (rule growth_inv_cong) (simp_all add: shuffle_loop_fields)

lemma growth_inv_pool [simp]: "growth_inv b c (s\<lparr>pool := x\<rparr>) = growth_inv b c s"
  by (rule growth_inv_cong) simp_all

lemma growth_inv_growth_plot_data [simp]:
  "growth_inv b c (s\<lparr>growth_plot_data := x\<rparr>) = growth_inv b c s"
  by (rule growth_inv_cong) simp_all

lemma growth_inv_prng [simp]: "growth_inv b c (s\<lparr>prng := x\<rparr>) = growth_inv b c s"
  by (rule growth_inv_cong) simp_all

lemma raised_inv_pool [simp]: "raised_inv b (s\<lparr>pool := x\<rparr>) = raised_inv b s"
  by (rule raised_inv_cong) simp_all

lemma establishes_shuffle:
  "establishes (growth_inv b c) shuffle (\<lambda>_. growth_inv b c) E"
  by (simp add: establishes_def shuffle_def)

lemma establishes_extend_pool:
  "establishes (growth_inv b c) (extend_pool t) (\<lambda>_. growth_inv b c) E"
  by (simp add: establishes_def extend_pool_def)

lemma establishes_record_size:
  "establishes (growth_inv b c) record_size (\<lambda>_. growth_inv b c) E"
  by (simp add: establishes_def record_size_def)

lemma establishes_prng_sample:
  "establishes (growth_inv b c) (\<lambda>s. prng_sample (xs s) (k s) s) (\<lambda>_. growth_inv b c) (raised_inv b)"
  by (auto simp: establishes_def prng_sample_def growth_inv_raised
      split: prod.splits option.splits)

subsection \<open>Death, division and the loop over the cells\<close>

lemma establishes_terminate_cells:
  "establishes (growth_inv b c) (terminate_cells p vs) (\<lambda>_. growth_inv b c) (raised_inv b)"
  unfolding establishes_def
proof (induction vs)
  case Nil
  show ?case by simp
next
  case (Cons v vs)
  show ?case
  proof (intro allI impI)
    fix s
    assume a: "growth_inv b c s"
    show "case terminate_cells p (v # vs) s of Raise e s' \<Rightarrow> raised_inv b s'
          | Return x s' \<Rightarrow> growth_inv b c s' | Hang s' \<Rightarrow> raised_inv b s'"
    proof (cases "terminate_cell p v s")
      case (Raise e t)
      then have "raised_inv b t"
        using a growth_inv_raised [OF a]
        by (auto simp: terminate_cell_def setitem_def split: if_splits sum.splits)
      with Raise show ?thesis by simp
    next
      case (Return u t)
      then obtain k where "t = s\<lparr>pool := remove1 v (pool s), mtx := (mtx s)(k := 0)\<rparr>"
        by (auto simp: terminate_cell_def setitem_def split: if_splits sum.splits)
      moreover have "growth_inv b c (s\<lparr>mtx := (mtx s)(k := 0)\<rparr>)"
        using growth_inv_set [OF a, of 0 k] growth_inv_ledger_nonempty [OF a] by simp
      ultimately have "growth_inv b c t"
        using growth_inv_cong [of t "s\<lparr>mtx := (mtx s)(k := 0)\<rparr>" b c] by simp
      with Cons.IH Return show ?thesis by simp
    next
      case (Hang t)
      then show ?thesis
        by (auto simp: terminate_cell_def setitem_def split: if_splits sum.splits)
    qed
  qed
qed

lemma establishes_deathStep:
  "establishes (growth_inv b c) (deathStep p step) (\<lambda>_. growth_inv b c) (raised_inv b)"
  unfolding deathStep_def
  by (rule establishes_andthen [OF establishes_prng_sample establishes_terminate_cells])

lemma establishes_division:
  "establishes (growth_inv b c) (division p cell benefitial neigh step c temp_pool)
     (\<lambda>r. growth_inv b (fst r)) (raised_inv b)"
  unfolding division_def
  apply (rule establishes_if)
   apply (rule establishes_andthen [OF establishes_prng_choice [where Q = "growth_inv b c"]])
     apply simp
    apply (erule growth_inv_raised)
   apply (rule establishes_andthen [where R = "growth_inv b"])
    apply (rule establishes_weaken [OF establishes_mutation [of b c]], simp, simp, simp)
   apply (rule establishes_Return, simp)
  apply (rule establishes_andthen [OF establishes_prng_choice [where Q = "growth_inv b c"]])
    apply simp
   apply (erule growth_inv_raised)
  apply (rule establishes_andthen [where R = "growth_inv b"])
   apply (rule establishes_weaken [OF establishes_mutation [of b c]], simp, simp, simp)
  apply (rule establishes_Return, simp)
  done

lemma establishes_lift:
  assumes "\<And>s. P s \<Longrightarrow> E s"
  shows "establishes P (\<lambda>s. lift (f s) s) (\<lambda>_. P) E"
  using assms by (auto simp: establishes_def lift_def split: sum.splits)

lemma establishes_cell_turn:
  "establishes (growth_inv b c) (cell_turn p step cell c temp_pool)
     (\<lambda>r. growth_inv b (fst r)) (raised_inv b)"
  unfolding cell_turn_def
  apply (rule establishes_andthen [OF establishes_lift], erule growth_inv_raised)
  apply (rule establishes_if)
   apply (rule establishes_andthen [where R = "\<lambda>_. growth_inv b c"])
    apply (rule establishes_weaken [OF establishes_getitem [where P = "growth_inv b c"
            and E = "raised_inv b"]], erule growth_inv_raised, simp, simp, simp)
   apply (rule establishes_state_if)
    apply (rule establishes_andthen [where R = "\<lambda>_. growth_inv b c"])
     apply (rule establishes_prng_random, simp)
    apply (rule establishes_if)
     apply (rule establishes_division)
    apply (rule establishes_Return, simp)
   apply (rule establishes_andthen [where R = "\<lambda>_. growth_inv b c"])
    apply (rule establishes_prng_random, simp)
   apply (rule establishes_if)
    apply (rule establishes_division)
   apply (rule establishes_Return, simp)
  apply (rule establishes_Return, simp)
  done

lemma establishes_divide_cells:
  "establishes (growth_inv b c) (divide_cells p step cells c temp_pool)
     (\<lambda>r. growth_inv b (fst r)) (raised_inv b)"
proof (induction cells arbitrary: c temp_pool)
  case Nil
  show ?case by (simp add: establishes_def)
next
  case (Cons cell cells)
  show ?case
    unfolding establishes_def
  proof (intro allI impI)
    fix s
    assume a: "growth_inv b c s"
    show "case divide_cells p step (cell # cells) c temp_pool s of
            Raise e s' \<Rightarrow> raised_inv b s' | Return r s' \<Rightarrow> growth_inv b (fst r) s'
          | Hang s' \<Rightarrow> raised_inv b s'"
    proof (cases "cell_turn p step cell c temp_pool s")
      case (Raise e t)
      with establishes_cell_turn [of b c p step cell temp_pool] a show ?thesis
        by (auto simp: establishes_def)
    next
      case (Hang t)
      with establishes_cell_turn [of b c p step cell temp_pool] a show ?thesis
        by (auto simp: establishes_def)
    next
      case (Return r t)
      obtain c' t' where r: "r = (c', t')" by (cases r)
      from establishes_cell_turn [of b c p step cell temp_pool] a Return r
      have "growth_inv b c' t" by (auto simp: establishes_def)
      with Cons.IH [of c' t'] have
        "case divide_cells p step cells c' t' t of
            Raise e s' \<Rightarrow> raised_inv b s' | Return r s' \<Rightarrow> growth_inv b (fst r) s'
          | Hang s' \<Rightarrow> raised_inv b s'"
        by (simp add: establishes_def)
      with Return r show ?thesis by simp
    qed
  qed
qed

lemma establishes_generation:
  "establishes (growth_inv b c) (generation p step c) (growth_inv b) (raised_inv b)"
  unfolding generation_def
  apply (rule establishes_andthen [OF establishes_shuffle])
  apply (rule establishes_andthen [where R = "\<lambda>r. growth_inv b (fst r)"])
   apply (rule establishes_weaken [where P' = "growth_inv b c"
        and Q' = "\<lambda>r. growth_inv b (fst r)" and E' = "raised_inv b"])
      apply (simp add: establishes_def)
      apply (metis establishes_divide_cells establishes_def)
     apply simp
    apply simp
   apply simp
  apply (simp only: split_paired_all prod.case fst_conv)
  apply (rule establishes_andthen [OF establishes_extend_pool])
  apply (rule establishes_andthen [OF establishes_record_size])
  apply (rule establishes_andthen [OF establishes_deathStep])
  apply (rule establishes_andthen [OF establishes_record_size])
  apply (rule establishes_Return, simp)
  done

lemma growth_loop_raised_inv:
  "growth_inv b c s \<Longrightarrow> raised_inv b (state_of (growth_loop p k step c s))"
proof (induction k arbitrary: step c s)
  case 0
  then show ?case by (simp add: growth_inv_raised)
next
  case (Suc k)
  show ?case
  proof (cases "generation p step c s")
    case (Raise e t)
    with establishes_generation [of b c p step] Suc.prems show ?thesis
      by (auto simp: establishes_def)
  next
    case (Hang t)
    with establishes_generation [of b c p step] Suc.prems show ?thesis
      by (auto simp: establishes_def)
  next
    case (Return c' t)
    with establishes_generation [of b c p step] Suc.prems
    have t: "growth_inv b c' t" by (auto simp: establishes_def)
    obtain e where "final_spectrum p t = Raise e t"
      using final_spectrum_raises by blast
    with Return t Suc.IH [OF t] show ?thesis
      by (simp add: andthen_def growth_inv_raised)
  qed
qed

subsection \<open>A run\<close>

lemma ledger_ok_single: "ledger_ok (s\<lparr>mut_container := [(0, 0), (0, 1)]\<rparr>)"
  by (simp add: ledger_ok_def less_Suc_eq)

lemma place_seeds_inv:
  "case place_seeds p (init ambient) of
     Raise e s' \<Rightarrow> raised_inv (tumour_multiplicity p = Single) s'
   | Return x s' \<Rightarrow> growth_inv (tumour_multiplicity p = Single) 1 s'
   | Hang s' \<Rightarrow> False"
proof (cases "tumour_multiplicity p")
  case Single
  then show ?thesis
    by (simp add: place_seeds_def andthen_def setitem_def init_def Let_def growth_inv_def
        raised_inv_def grid_ok_def ben_ok_def ledger_ok_def less_Suc_eq
        split: sum.splits del: split_paired_All)
next
  case Double
  then show ?thesis
    by (simp add: place_seeds_def andthen_def setitem_def init_def Let_def growth_inv_def
        raised_inv_def grid_ok_def ben_ok_def
        split: sum.splits del: split_paired_All)
qed

lemma run_raised_inv:
  "raised_inv (tumour_multiplicity p = Single) (state_of (run twister p seed (init ambient)))"
proof (cases "place_seeds p (init ambient)")
  case (Raise e t)
  with place_seeds_inv [of p ambient] show ?thesis by (simp add: run_def)
next
  case (Hang t)
  with place_seeds_inv [of p ambient] show ?thesis by simp
next
  case (Return u t)
  with place_seeds_inv [of p ambient]
  have "growth_inv (tumour_multiplicity p = Single) 1 t" by simp
  then have "growth_inv (tumour_multiplicity p = Single) 1
               (t\<lparr>growth_plot_data := [], prng := twister seed\<rparr>)" by simp
  from growth_loop_raised_inv [OF this] Return show ?thesis
    by (simp add: run_def andthen_def tumourGrowth_def)
qed

text \<open>The ledgers that two concrete runs leave.\<close>

lemma double_run_ledger:
  "mut_container (state_of (run (\<lambda>_. []) double_scenario 1 (init [])))
     = [(0, 0), (0, 1), (0, 2), (2, 2), (2, 3), (1, 4), (1, 5)]"
  by code_simp

lemma single_run_ledger:
  "mut_container (state_of (run (\<lambda>_. []) single_scenario 1 (init [])))
     = [(0, 0), (0, 1), (1, 2), (1, 3), (2, 4), (2, 5), (3, 6), (3, 7)]"
  by code_simp

text \<open>
  C5 (as stated, refuted). In double tumour mode the growth loop starts its mutation
  counter at 1 although the ledger already holds the ids 0, 1 and 2: after one generation
  the entry at position 3 has the own-id 2, like the entry before it, and its parent is 2
  as well. In single tumour mode the first entry of the ledger has the parent 0 and the
  own-id 0.
\<close>

theorem ledger_ids_counterexample:
  "mut_container (state_of (run (\<lambda>_. []) double_scenario 1 (init []))) ! 2 = (0, 2)
   \<and> mut_container (state_of (run (\<lambda>_. []) double_scenario 1 (init []))) ! 3 = (2, 2)
   \<and> mut_container (state_of (run (\<lambda>_. []) single_scenario 1 (init []))) ! 0 = (0, 0)"
  by (simp add: double_run_ledger single_run_ledger)

text \<open>
  C5 (amended). In single tumour mode, whatever the generator delivers and whether the run
  ends by an exception or not, the ledger it leaves has the own-id \<open>i\<close> at every position
  \<open>i\<close>, and the parent of every entry but the first is smaller than its own-id.
\<close>

theorem ledger_ids_single_mode:
  assumes "tumour_multiplicity p = Single"
  shows "ledger_ok (state_of (run twister p seed (init ambient)))"
  using run_raised_inv [of p twister seed ambient] assms by (simp add: raised_inv_def)

theorem ledger_ids_single_mode_witness:
  "tumour_multiplicity single_scenario = Single
   \<and> length (mut_container (state_of (run (\<lambda>_. []) single_scenario 1 (init [])))) = 8
   \<and> snd (mut_container (state_of (run (\<lambda>_. []) single_scenario 1 (init []))) ! 4) = 4
   \<and> fst (mut_container (state_of (run (\<lambda>_. []) single_scenario 1 (init []))) ! 4) < 4"
proof -
  have m: "tumour_multiplicity single_scenario = Single"
    by (simp add: single_scenario_def)
  have n: "length (mut_container (state_of (run (\<lambda>_. []) single_scenario 1 (init [])))) = 8"
    by (simp add: single_run_ledger)
  from ledger_ids_single_mode [OF m, of "\<lambda>_. []" 1 "[]"] n
  have "snd (mut_container (state_of (run (\<lambda>_. []) single_scenario 1 (init []))) ! 4) = 4
    \<and> fst (mut_container (state_of (run (\<lambda>_. []) single_scenario 1 (init []))) ! 4) < 4"
    unfolding ledger_ok_def by (auto dest!: spec [of _ 4])
  with m n show ?thesis by simp
qed

text \<open>
  In both modes every beneficial id the run leaves is a position of the ledger: the
  hypothesis of \<open>mutation_of_advantaged_cell\<close> on the beneficial set holds in every
  state a run reaches.
\<close>

lemma run_ben_ok: "ben_ok (state_of (run twister p seed (init ambient)))"
  using run_raised_inv [of p twister seed ambient] by (simp add: raised_inv_def)

section \<open>The beneficial list only grows\<close>

lemma ext_andthen [extends_intros]:
  assumes "establishes (extends xs) m (\<lambda>_. extends xs) (extends xs)"
    and "\<And>x. establishes (extends xs) (f x) (\<lambda>_. extends xs) (extends xs)"
  shows "establishes (extends xs) (andthen m f) (\<lambda>_. extends xs) (extends xs)"
  using assms by (rule establishes_andthen)

lemma ext_if [extends_intros]:
  assumes "establishes (extends xs) m (\<lambda>_. extends xs) (extends xs)"
    and "establishes (extends xs) n (\<lambda>_. extends xs) (extends xs)"
  shows "establishes (extends xs) (if c then m else n) (\<lambda>_. extends xs) (extends xs)"
  using assms by simp

lemma ext_state_if [extends_intros]:
  assumes "establishes (extends xs) m (\<lambda>_. extends xs) (extends xs)"
    and "establishes (extends xs) n (\<lambda>_. extends xs) (extends xs)"
  shows "establishes (extends xs) (\<lambda>s. if c s then m s else n s) (\<lambda>_. extends xs) (extends xs)"
  using assms by (simp add: establishes_def)

lemma ext_Return [extends_intros]: "establishes (extends xs) (Return x) (\<lambda>_. extends xs) (extends xs)"
  by (simp add: establishes_def)

lemma extends_draw [simp]: "extends xs (snd (draw s)) = extends xs s"
  by (simp add: extends_def)

lemma ext_prng_random [extends_intros]:
  "establishes (extends xs) prng_random (\<lambda>_. extends xs) (extends xs)"
  by (rule establishes_prng_random) simp

lemma ext_prng_choice [extends_intros]:
  "establishes (extends xs) (prng_choice ys) (\<lambda>_. extends xs) (extends xs)"
  by (rule establishes_weaken [OF establishes_prng_choice [where Q = "extends xs"
          and P = "extends xs" and E = "extends xs"]]) simp_all

lemma ext_getitem [extends_intros]:
  "establishes (extends xs) (getitem p c) (\<lambda>_. extends xs) (extends xs)"
  by (auto simp: establishes_def getitem_def split: sum.splits)

lemma ext_setitem [extends_intros]:
  "establishes (extends xs) (\<lambda>s. setitem p c (f s) s) (\<lambda>_. extends xs) (extends xs)"
  by (auto simp: establishes_def setitem_def extends_def split: sum.splits)

lemma ext_ledger_entry [extends_intros]:
  "establishes (extends xs) (ledger_entry c) (\<lambda>_. extends xs) (extends xs)"
  by (auto simp: establishes_def ledger_entry_def lift_def split: sum.splits)

lemma ext_append_ledger [extends_intros]:
  "establishes (extends xs) (append_ledger e) (\<lambda>_. extends xs) (extends xs)"
  by (simp add: establishes_def append_ledger_def extends_def)

lemma ext_append_benefitial [extends_intros]:
  "establishes (extends xs) (append_benefitial d) (\<lambda>_. extends xs) (extends xs)"
  by (simp add: establishes_def append_benefitial_def extends_def)

lemma ext_lift [extends_intros]:
  "establishes (extends xs) (\<lambda>s. lift (f s) s) (\<lambda>_. extends xs) (extends xs)"
  by (auto simp: establishes_def lift_def split: sum.splits)

lemma ext_mutation [extends_intros]:
  "establishes (extends xs) (mutation p cell step c place_to_divide benefitial)
     (\<lambda>_. extends xs) (extends xs)"
  unfolding mutation_def append_lineage_def mark_benefitial_def
  by (intro extends_intros)

lemma ext_division [extends_intros]:
  "establishes (extends xs) (division p cell benefitial neigh step c temp_pool)
     (\<lambda>_. extends xs) (extends xs)"
  unfolding division_def by (intro extends_intros)

lemma ext_cell_turn [extends_intros]:
  "establishes (extends xs) (cell_turn p step cell c temp_pool) (\<lambda>_. extends xs) (extends xs)"
  unfolding cell_turn_def by (intro extends_intros)

lemma ext_divide_cells [extends_intros]:
  "establishes (extends xs) (divide_cells p step cells c temp_pool) (\<lambda>_. extends xs) (extends xs)"
proof (induction cells arbitrary: c temp_pool)
  case Nil
  show ?case by (simp add: establishes_def)
next
  case (Cons cell cells)
  show ?case
    unfolding establishes_def
  proof (intro allI impI)
    fix s
    assume a: "extends xs s"
    show "case divide_cells p step (cell # cells) c temp_pool s of
            Raise e s' \<Rightarrow> extends xs s' | Return r s' \<Rightarrow> extends xs s'
          | Hang s' \<Rightarrow> extends xs s'"
    proof (cases "cell_turn p step cell c temp_pool s")
      case (Raise e t)
      with ext_cell_turn [of xs p step cell c temp_pool] a show ?thesis
        by (auto simp: establishes_def)
    next
      case (Hang t)
      with ext_cell_turn [of xs p step cell c temp_pool] a show ?thesis
        by (auto simp: establishes_def)
    next
      case (Return r t)
      obtain c' t' where r: "r = (c', t')" by (cases r)
      from ext_cell_turn [of xs p step cell c temp_pool] a Return
      have "extends xs t" by (auto simp: establishes_def)
      with Cons.IH [of c' t'] have
        "case divide_cells p step cells c' t' t of
            Raise e s' \<Rightarrow> extends xs s' | Return r s' \<Rightarrow> extends xs s'
          | Hang s' \<Rightarrow> extends xs s'"
        by (simp add: establishes_def)
      with Return r show ?thesis by simp
    qed
  qed
qed

lemma ext_divide_pool [extends_intros]:
  "establishes (extends xs) (\<lambda>s. divide_cells p step (cells s) c temp_pool s)
     (\<lambda>_. extends xs) (extends xs)"
  using ext_divide_cells [of xs p step _ c temp_pool] by (simp add: establishes_def)

lemma ext_shuffle [extends_intros]: "establishes (extends xs) shuffle (\<lambda>_. extends xs) (extends xs)"
  by (simp add: establishes_def shuffle_def extends_def shuffle_loop_fields)

lemma ext_extend_pool [extends_intros]:
  "establishes (extends xs) (extend_pool t) (\<lambda>_. extends xs) (extends xs)"
  by (simp add: establishes_def extend_pool_def extends_def)

lemma ext_record_size [extends_intros]:
  "establishes (extends xs) record_size (\<lambda>_. extends xs) (extends xs)"
  by (simp add: establishes_def record_size_def extends_def)

lemma ext_prng_sample [extends_intros]:
  "establishes (extends xs) (\<lambda>s. prng_sample (ys s) (k s) s) (\<lambda>_. extends xs) (extends xs)"
  by (auto simp: establishes_def prng_sample_def extends_def split: prod.splits option.splits)

lemma ext_terminate_cell [extends_intros]:
  "establishes (extends xs) (terminate_cell p v) (\<lambda>_. extends xs) (extends xs)"
  by (auto simp: establishes_def terminate_cell_def setitem_def extends_def split: sum.splits)

lemma ext_terminate_cells [extends_intros]:
  "establishes (extends xs) (terminate_cells p vs) (\<lambda>_. extends xs) (extends xs)"
  unfolding establishes_def
proof (induction vs)
  case Nil
  show ?case by simp
next
  case (Cons v vs)
  show ?case
  proof (intro allI impI)
    fix s
    assume a: "extends xs s"
    show "case terminate_cells p (v # vs) s of Raise e s' \<Rightarrow> extends xs s'
          | Return x s' \<Rightarrow> extends xs s' | Hang s' \<Rightarrow> extends xs s'"
      using ext_terminate_cell [of xs p v] a Cons.IH
      by (cases "terminate_cell p v s") (auto simp: establishes_def)
  qed
qed

lemma ext_deathStep [extends_intros]:
  "establishes (extends xs) (deathStep p step) (\<lambda>_. extends xs) (extends xs)"
  unfolding deathStep_def by (intro extends_intros)

lemma ext_generation [extends_intros]:
  "establishes (extends xs) (generation p step c) (\<lambda>_. extends xs) (extends xs)"
  unfolding generation_def
  apply (intro extends_intros)
  apply (simp only: split_paired_all prod.case)
  apply (intro extends_intros)
  done

lemma extends_growth_loop:
  "extends xs s \<Longrightarrow> extends xs (state_of (growth_loop p k step c s))"
proof (induction k arbitrary: step c s)
  case 0
  then show ?case by simp
next
  case (Suc k)
  show ?case
  proof (cases "generation p step c s")
    case (Raise e t)
    with ext_generation [of xs p step c] Suc.prems show ?thesis
      by (auto simp: establishes_def)
  next
    case (Hang t)
    with ext_generation [of xs p step c] Suc.prems show ?thesis
      by (auto simp: establishes_def)
  next
    case (Return c' t)
    with ext_generation [of xs p step c] Suc.prems
    have t: "extends xs t" by (auto simp: establishes_def)
    obtain e where "final_spectrum p t = Raise e t"
      using final_spectrum_raises by blast
    with Return t Suc.IH [OF t] show ?thesis
      by (simp add: andthen_def)
  qed
qed

text \<open>
  C4 (as stated, refuted). After two generations of the single scenario the beneficial set
  holds two ids: the id 2, seeded in generation 0, and the id 4 of the daughter that the
  cell with id 2 got in generation 1.
\<close>

theorem benefitial_mutation_two_counterexample:
  "benefitial_mutation (state_of (run (\<lambda>_. []) single_scenario 1 (init []))) = [2, 4]"
  by code_simp

text \<open>
  C4 (amended). The beneficial set never shrinks: from any state, the beneficial list after
  a generation, and after the whole growth loop, starts with the list before it. Ids are
  only appended.
\<close>

theorem benefitial_mutation_only_grows:
  "prefix (benefitial_mutation s) (benefitial_mutation (state_of (generation p step c s)))
   \<and> prefix (benefitial_mutation s) (benefitial_mutation (state_of (tumourGrowth p s)))"
proof
  have "extends (benefitial_mutation s) s" by (simp add: extends_def)
  with ext_generation [of "benefitial_mutation s" p step c]
  have "extends (benefitial_mutation s) (state_of (generation p step c s))"
    by (cases "generation p step c s") (auto simp: establishes_def)
  then show "prefix (benefitial_mutation s)
               (benefitial_mutation (state_of (generation p step c s)))"
    by (simp add: extends_def)
next
  have "extends (benefitial_mutation s) s" by (simp add: extends_def)
  from extends_growth_loop [OF this]
  show "prefix (benefitial_mutation s) (benefitial_mutation (state_of (tumourGrowth p s)))"
    by (simp add: tumourGrowth_def extends_def)
qed

section \<open>Reconstruction of the lineages\<close>

text \<open>
  Where the ledger is addressed by clone-id (as it is in single tumour mode), the walk from a
  clone-id to the root ends after at most as many steps as the id is large, and the
  reconstruction of a pool of live cells returns, for every cell, a non-empty list of
  increasing ids that is shorter than the ledger.
\<close>

lemma ledger_ok_keys:
  assumes "ledger_ok s"
  shows "map snd (mut_container s) = map int [0..<length (mut_container s)]"
  using assms by (intro nth_equalityI) (simp_all add: ledger_ok_def)

lemma lookup_map_ledger_ok:
  assumes "ledger_ok s" and "0 \<le> m" and "m < int (length (mut_container s))"
  shows "lookup_map s m = Some (fst (mut_container s ! nat m))"
proof -
  let ?xs = "rev (map (\<lambda>(v, k). (k, v)) (mut_container s))"
  have "map fst ?xs = rev (map snd (mut_container s))"
    by (simp add: rev_map case_prod_unfold comp_def)
  then have "map fst ?xs = rev (map int [0..<length (mut_container s)])"
    using ledger_ok_keys [OF assms(1)] by simp
  then have d: "distinct (map fst ?xs)"
    by (simp add: distinct_map inj_on_def)
  have "mut_container s ! nat m \<in> set (mut_container s)"
    using assms(2,3) by simp
  moreover have "snd (mut_container s ! nat m) = m"
    using assms by (simp add: ledger_ok_def)
  ultimately have "(m, fst (mut_container s ! nat m)) \<in> set ?xs"
    by (force simp: image_iff case_prod_unfold)
  with d show ?thesis by (simp add: lookup_map_def)
qed

lemma trace_back_returns:
  assumes "ledger_ok s"
  shows "0 \<le> m \<Longrightarrow> m < int (length (mut_container s)) \<Longrightarrow>
     \<exists>r. trace_back (lookup_map s) m acc = Some (Inr (acc @ r))
       \<and> length r \<le> nat m \<and> (0 < m \<longrightarrow> r \<noteq> [])
       \<and> (\<forall>x\<in>set r. 0 < x \<and> x \<le> m) \<and> sorted_wrt (>) r"
proof (induction "nat m" arbitrary: m acc rule: less_induct)
  case less
  show ?case
  proof (cases "0 < m")
    case False
    then show ?thesis by (subst trace_back.simps) simp
  next
    case True
    define q where "q = fst (mut_container s ! nat m)"
    have lk: "lookup_map s m = Some q"
      using lookup_map_ledger_ok [OF assms less.prems] by (simp add: q_def)
    have q: "0 \<le> q" "q < m"
      using assms less.prems True by (auto simp: ledger_ok_def q_def dest!: spec [of _ "nat m"])
    then have "nat q < nat m" "q < int (length (mut_container s))"
      using less.prems by simp_all
    from less.hyps [OF this(1) q(1) this(2), of "acc @ [m]"]
    obtain r where r: "trace_back (lookup_map s) q (acc @ [m]) = Some (Inr ((acc @ [m]) @ r))"
      and l: "length r \<le> nat q" and b: "\<forall>x\<in>set r. 0 < x \<and> x \<le> q"
      and st: "sorted_wrt (>) r"
      by blast
    have "trace_back (lookup_map s) m acc = Some (Inr (acc @ (m # r)))"
      using True lk r by (subst trace_back.simps) simp
    moreover have "length (m # r) \<le> nat m" using l q by simp
    moreover have "\<forall>x\<in>set (m # r). 0 < x \<and> x \<le> m" using b q True by auto
    moreover have "sorted_wrt (>) (m # r)" using st b q by auto
    ultimately show ?thesis by blast
  qed
qed

lemma reconstruct_returns:
  assumes "ledger_ok s"
    and "\<forall>c\<in>set cells. \<exists>k. locate p c = Inr k \<and> 0 < mtx s k
            \<and> mtx s k < int (length (mut_container s))"
  shows "\<exists>rs. reconstruct p s cells = Some (Inr rs) \<and> length rs = length cells
           \<and> (\<forall>l\<in>set rs. l \<noteq> [] \<and> length l < length (mut_container s) \<and> sorted_wrt (<) l)"
  using assms(2)
proof (induction cells)
  case Nil
  show ?case by simp
next
  case (Cons c cells)
  then obtain k where k: "locate p c = Inr k" "0 < mtx s k"
    "mtx s k < int (length (mut_container s))" by auto
  have own: "snd (mut_container s ! nat (mtx s k)) = mtx s k"
    using assms(1) k by (simp add: ledger_ok_def)
  have ix: "py_index (mut_container s) (mtx s k) = Inr (mut_container s ! nat (mtx s k))"
    using k by (simp add: py_index_def index_in_def)
  from trace_back_returns [OF assms(1), of "mtx s k" "[]"] k
  obtain r where r: "trace_back (lookup_map s) (mtx s k) [] = Some (Inr r)"
    and l: "length r \<le> nat (mtx s k)" and ne: "r \<noteq> []" and st: "sorted_wrt (>) r"
    by auto
  from Cons obtain rs where rs: "reconstruct p s cells = Some (Inr rs)"
    "length rs = length cells"
    "\<forall>l\<in>set rs. l \<noteq> [] \<and> length l < length (mut_container s) \<and> sorted_wrt (<) l"
    by auto
  have "reconstruct p s (c # cells) = Some (Inr (rev r # rs))"
    using k ix own r rs by simp
  moreover have "sorted_wrt (<) (rev r)"
    using st by (simp add: sorted_wrt_rev)
  moreover have "length (rev r) < length (mut_container s)" using l k by simp
  ultimately show ?case using rs ne by simp
qed

lemma double_run_pool:
  "pool (state_of (run (\<lambda>_. []) double_scenario 1 (init [])))
     = [(6, 5), (4, 5), (5, 6), (3, 6)]"
  by code_simp

lemma double_run_mtx:
  "mtx (state_of (run (\<lambda>_. []) double_scenario 1 (init []))) (6, 5) = 4"
  by code_simp

lemma trace_back_Some_no_cycle:
  assumes "trace_back lk m acc = Some y"
  shows "\<not> (lk m = Some m \<and> 0 < m)"
proof (rule trace_back.raw_induct
    [where P = "\<lambda>lk m acc y. \<not> (lk m = Some m \<and> 0 < m)", OF _ assms])
  fix tb :: "(int \<rightharpoonup> int) \<Rightarrow> int \<Rightarrow> int list \<Rightarrow> (error + int list) option"
    and lk m acc y
  assume ih: "\<And>lk m acc y. tb lk m acc = Some y \<Longrightarrow> \<not> (lk m = Some m \<and> 0 < m)"
    and eq: "(if 0 < m then case lk m of None \<Rightarrow> Some (Inl KeyError)
                            | Some m' \<Rightarrow> tb lk m' (acc @ [m])
              else Some (Inr acc)) = Some y"
  show "\<not> (lk m = Some m \<and> 0 < m)"
  proof
    assume c: "lk m = Some m \<and> 0 < m"
    with eq have "tb lk m (acc @ [m]) = Some y" by simp
    from ih [OF this] c show False by simp
  qed
qed

lemma trace_back_cycle:
  assumes "lk m = Some m" and "0 < m"
  shows "trace_back lk m acc = None"
proof (cases "trace_back lk m acc")
  case None
  then show ?thesis .
next
  case (Some y)
  from trace_back_Some_no_cycle [OF this] assms show ?thesis by simp
qed

text \<open>
  C6. In double tumour mode the reconstruction need not end. After one generation of the
  double scenario the ledger maps the id 2 to the parent 2; the cell at \<open>(6, 5)\<close> has
  the clone-id 4, whose own-id is 3 and whose parent is 2, and the walk from there stays
  at 2 for ever. \<^verbatim>\<open>mutation_reconstruction\<close> does not return.
\<close>

theorem reconstruction_diverges_double_mode:
  "mutation_reconstruction double_scenario
     (state_of (run (\<lambda>_. []) double_scenario 1 (init []))) = None"
proof -
  let ?s = "state_of (run (\<lambda>_. []) double_scenario 1 (init []))"
  have lk2: "lookup_map ?s 2 = Some 2" and lk3: "lookup_map ?s 3 = Some 2"
    by (simp_all add: lookup_map_def double_run_ledger)
  have "trace_back (lookup_map ?s) 3 [] = trace_back (lookup_map ?s) 2 [3]"
    by (subst trace_back.simps) (simp add: lk3)
  also have "\<dots> = None"
    using trace_back_cycle [of "lookup_map ?s" 2 "[3]"] lk2 by simp
  finally have d: "trace_back (lookup_map ?s) 3 [] = None" .
  have "locate double_scenario (6, 5) = Inr (6, 5)"
    by (simp add: locate_def index_in_def double_scenario_def)
  moreover have "py_index (mut_container ?s) (mtx ?s (6, 5)) = Inr (2, 3)"
    by (simp add: double_run_mtx double_run_ledger py_index_def index_in_def)
  ultimately show ?thesis
    by (simp add: mutation_reconstruction_def double_run_pool d)
qed

section \<open>Properties of the histogram\<close>

text \<open>
  C3. On the input \<open>[[1,2],[1,3]]\<close> the builder does not give each id its own bin: the
  range from 1 to 3 is cut into \<open>3 - 1 = 2\<close> bins, the last of which holds both id 2 and
  id 3. The result has no entry for id 3 and reports the count 2 for id 2.
\<close>

theorem bulk_seq_merges_last_two_ids:
  "bulk_seq [[1, 2], [1, 3]] = Inr [(1, 2), (2, 2)]"
  by code_simp

text \<open>
  When all cells carry the same single id, minimum and maximum coincide, the number of bins
  is 0 and \<^verbatim>\<open>np.histogram\<close> raises ValueError.
\<close>

lemma bulk_seq_single_id: "bulk_seq [[1], [1]] = Inl ValueError"
  by code_simp

text \<open>
  C9 (as stated, refuted). The empty collection makes the builder raise the ValueError of
  \<^verbatim>\<open>np.min\<close>; no empty result is returned.
\<close>

theorem bulk_seq_empty_counterexample:
  "bulk_seq [] = Inl ValueError \<and> bulk_seq [] \<noteq> Inr []"
  by (simp add: bulk_seq_def np_min_def)

text \<open>
  C9 (amended). Whenever the per-cell lists hold no mutation at all, the builder raises
  ValueError: the minimum of the empty flattened list is taken before anything else.
\<close>

theorem bulk_seq_no_mutations_raises:
  assumes "concat DNA = []"
  shows "bulk_seq DNA = Inl ValueError"
  unfolding bulk_seq_def assms by (simp add: np_min_def)

theorem bulk_seq_no_mutations_raises_witness:
  "concat [[], [] :: int list] = [] \<and> bulk_seq [[], []] = Inl ValueError"
  using bulk_seq_no_mutations_raises [of "[[], []]"] by simp

end
